theory Spec2Isabelle
  imports Main "HOL-Library.Word"
begin

section \<open>JavaScript values used by server.js\<close>

text \<open>
  The upstream API delivers jobs and operations as JSON objects. A field that is absent,
  \<open>null\<close> or \<open>undefined\<close> is \<open>None\<close>; a string field is \<open>Some s\<close>. JavaScript's
  truthiness of such a value: \<open>null\<close>, \<open>undefined\<close> and the empty string are falsy, every
  other string is truthy.
\<close>

definition truthy :: "string option \<Rightarrow> bool" where
  "truthy v = (case v of None \<Rightarrow> False | Some s \<Rightarrow> s \<noteq> [])"

text \<open>\<open>a || b\<close> on two optional strings: \<open>a\<close> when it is truthy, else \<open>b\<close> as it is.\<close>

definition orElse :: "string option \<Rightarrow> string option \<Rightarrow> string option" where
  "orElse a b = (if truthy a then a else b)"

text \<open>\<open>a || "literal"\<close>: the result is always a string.\<close>

definition orStr :: "string option \<Rightarrow> string \<Rightarrow> string" where
  "orStr a d = (case a of None \<Rightarrow> d | Some s \<Rightarrow> if s \<noteq> [] then s else d)"

text \<open>
  The errors a request can raise: \<open>Date.prototype.toISOString\<close> throws a RangeError on an
  invalid date, and \<open>postJson\<close> throws an Error carrying the upstream status and body.
\<close>

datatype error = RangeError | UpstreamError string

subsection \<open>Numbers to text\<close>

text \<open>\<open>String(n)\<close> for an integer \<open>n\<close> (decimal digits, a minus sign when negative).\<close>

definition digitChar :: "nat \<Rightarrow> char" where
  "digitChar d = ''0123456789'' ! d"

fun showNat :: "nat \<Rightarrow> string" where
  "showNat n = (if n < 10 then [digitChar n] else showNat (n div 10) @ [digitChar (n mod 10)])"

definition showInt :: "int \<Rightarrow> string" where
  "showInt i = (if i < 0 then CHR ''-'' # showNat (nat (- i)) else showNat (nat i))"

text \<open>\<open>String(n).padStart(w, "0")\<close>.\<close>

definition padStart :: "nat \<Rightarrow> string \<Rightarrow> string" where
  "padStart w s = replicate (w - length s) CHR ''0'' @ s"

definition pad :: "int \<Rightarrow> string" where
  "pad n = padStart 2 (showInt n)"

subsection \<open>Dates\<close>

text \<open>
  A time value is the number of milliseconds since the epoch; \<open>None\<close> is \<open>NaN\<close>, the time
  value of an invalid Date. \<open>new Date(s).getTime()\<close> for a string \<open>s\<close> is \<open>Date.parse\<close> of
  the JavaScript runtime, which the functions below take as the parameter \<open>P\<close>.
\<close>

type_synonym dateParse = "string \<Rightarrow> int option"

text \<open>Civil date of a day number (days since 1970-01-01), proleptic Gregorian calendar.\<close>

definition civilFromDays :: "int \<Rightarrow> int \<times> int \<times> int" where
  "civilFromDays z0 =
     (let z = z0 + 719468;
          era = z div 146097;
          doe = z - era * 146097;
          yoe = (doe - doe div 1460 + doe div 36524 - doe div 146096) div 365;
          y = yoe + era * 400;
          doy = doe - (365 * yoe + yoe div 4 - yoe div 100);
          mp = (5 * doy + 2) div 153;
          d = doy - (153 * mp + 2) div 5 + 1;
          m = (if mp < 10 then mp + 3 else mp - 9)
      in (if m \<le> 2 then y + 1 else y, m, d))"

definition daysFromCivil :: "int \<Rightarrow> int \<Rightarrow> int \<Rightarrow> int" where
  "daysFromCivil y0 m d =
     (let y = (if m \<le> 2 then y0 - 1 else y0);
          era = y div 400;
          yoe = y - era * 400;
          doy = (153 * (if m > 2 then m - 3 else m + 9) + 2) div 5 + d - 1;
          doe = yoe * 365 + yoe div 4 - yoe div 100 + doy
      in era * 146097 + doe - 719468)"

definition msPerDay :: int where
  "msPerDay = 86400000"

definition getUTCFullYear :: "int \<Rightarrow> int" where
  "getUTCFullYear t = fst (civilFromDays (t div msPerDay))"

definition getUTCMonth :: "int \<Rightarrow> int" where
  "getUTCMonth t = fst (snd (civilFromDays (t div msPerDay))) - 1"

definition getUTCDate :: "int \<Rightarrow> int" where
  "getUTCDate t = snd (snd (civilFromDays (t div msPerDay)))"

definition getUTCHours :: "int \<Rightarrow> int" where
  "getUTCHours t = (t mod msPerDay) div 3600000"

definition getUTCMinutes :: "int \<Rightarrow> int" where
  "getUTCMinutes t = (t mod 3600000) div 60000"

definition getUTCSeconds :: "int \<Rightarrow> int" where
  "getUTCSeconds t = (t mod 60000) div 1000"

text \<open>
  \<open>toUTC(dt)\<close> and \<open>yyyymmdd(dateLike)\<close> of server.js, on the time value of \<open>new Date(dt)\<close>.
  Every getter of an invalid Date returns \<open>NaN\<close>, which the template literal prints as
  \<open>NaN\<close>.
\<close>

definition toUTC :: "int option \<Rightarrow> string" where
  "toUTC d = (case d of
       None \<Rightarrow> ''NaNNaNNaNTNaNNaNNaNZ''
     | Some t \<Rightarrow> showInt (getUTCFullYear t) @ pad (getUTCMonth t + 1) @ pad (getUTCDate t)
                 @ ''T'' @ pad (getUTCHours t) @ pad (getUTCMinutes t) @ pad (getUTCSeconds t)
                 @ ''Z'')"

definition yyyymmdd :: "int option \<Rightarrow> string" where
  "yyyymmdd d = (case d of
       None \<Rightarrow> ''NaNNaNNaN''
     | Some t \<Rightarrow> showInt (getUTCFullYear t) @ pad (getUTCMonth t + 1) @ pad (getUTCDate t))"

text \<open>
  \<open>Date.prototype.toISOString\<close>: \<open>YYYY-MM-DDTHH:mm:ss.sssZ\<close>, the year with a sign and six
  digits outside 0..9999; a RangeError on an invalid date.
\<close>

definition isoYear :: "int \<Rightarrow> string" where
  "isoYear y = (if 0 \<le> y \<and> y \<le> 9999 then padStart 4 (showNat (nat y))
                else (if y < 0 then ''-'' else ''+'') @ padStart 6 (showNat (nat \<bar>y\<bar>)))"

definition toISOString :: "int option \<Rightarrow> error + string" where
  "toISOString d = (case d of
       None \<Rightarrow> Inl RangeError
     | Some t \<Rightarrow> Inr (isoYear (getUTCFullYear t) @ ''-'' @ pad (getUTCMonth t + 1) @ ''-''
                 @ pad (getUTCDate t) @ ''T'' @ pad (getUTCHours t) @ '':''
                 @ pad (getUTCMinutes t) @ '':'' @ pad (getUTCSeconds t) @ ''.''
                 @ padStart 3 (showNat (nat (t mod 1000))) @ ''Z''))"

text \<open>\<open>TimeClip\<close>: a time value beyond 8.64e15 ms from the epoch is \<open>NaN\<close>.\<close>

definition timeClip :: "int \<Rightarrow> int option" where
  "timeClip t = (if \<bar>t\<bar> \<le> 8640000000000000 then Some t else None)"

text \<open>
  \<open>new Date(v).getTime()\<close> for an optional string: an absent value gives an invalid Date,
  as \<open>new Date(undefined)\<close> does.
\<close>

definition dateOf :: "dateParse \<Rightarrow> string option \<Rightarrow> int option" where
  "dateOf P v = (case v of None \<Rightarrow> None | Some s \<Rightarrow> P s)"

text \<open>
  \<open>addDaysISO(dateLike, n)\<close>: \<open>setUTCDate(getUTCDate() + n)\<close> moves a valid date by \<open>n\<close> days
  and leaves an invalid one invalid; \<open>toISOString\<close> then throws on the invalid date.
\<close>

definition addDaysISO :: "dateParse \<Rightarrow> string option \<Rightarrow> int \<Rightarrow> error + string" where
  "addDaysISO P dateLike n =
     toISOString (case dateOf P dateLike of None \<Rightarrow> None
                  | Some t \<Rightarrow> timeClip (t + n * msPerDay))"

section \<open>Data model\<close>

record job =
  j_id :: "string option"
  j_name :: "string option"
  j_number :: "int option"
  j_status :: "string option"
  j_salesOrderId :: "string option"
  j_scheduledStartUtc :: "string option"
  j_originalScheduledStartUtc :: "string option"
  j_productionDueDate :: "string option"
  j_scheduledEndUtc :: "string option"
  j_originalScheduledEndUtc :: "string option"

record operation =
  o_id :: "string option"
  o_name :: "string option"
  o_scheduledEquipmentName :: "string option"
  o_scheduledStartUtc :: "string option"
  o_originalScheduledStartUtc :: "string option"
  o_scheduledEndUtc :: "string option"
  o_originalScheduledEndUtc :: "string option"

record itemReference =
  r_name :: "string option"
  r_number :: "string option"
  r_description :: "string option"

record itemToMake =
  i_itemReference :: "itemReference option"
  i_quantityToMake :: "int option"

record event =
  e_id :: "string option"
  e_start :: "string option"
  e_end :: "string option"
  e_summary :: string
  e_location :: string
  e_description :: string
  e_categories :: "string list"

section \<open>Event mapper\<close>

text \<open>\<open>primaryOp?.field\<close>: \<open>undefined\<close> when there is no primary operation.\<close>

definition opField :: "(operation \<Rightarrow> string option) \<Rightarrow> operation option \<Rightarrow> string option" where
  "opField f op = (case op of None \<Rightarrow> None | Some o' \<Rightarrow> f o')"

definition jobStartOf :: "job \<Rightarrow> string option" where
  "jobStartOf j = orElse (orElse (j_scheduledStartUtc j) (j_originalScheduledStartUtc j))
                         (j_productionDueDate j)"

definition jobEndOf :: "job \<Rightarrow> string option" where
  "jobEndOf j = orElse (j_scheduledEndUtc j) (j_originalScheduledEndUtc j)"

definition opStartOf :: "operation option \<Rightarrow> string option" where
  "opStartOf op = orElse (opField o_scheduledStartUtc op) (opField o_originalScheduledStartUtc op)"

definition opEndOf :: "operation option \<Rightarrow> string option" where
  "opEndOf op = orElse (opField o_scheduledEndUtc op) (opField o_originalScheduledEndUtc op)"

text \<open>\<open>[...].filter(Boolean).join(sep)\<close> on strings: the empty ones are dropped.\<close>

fun joinWith :: "string \<Rightarrow> string list \<Rightarrow> string" where
  "joinWith sep [] = []"
| "joinWith sep [x] = x"
| "joinWith sep (x # y # ys) = x @ sep @ joinWith sep (y # ys)"

definition filterBoolean :: "string list \<Rightarrow> string list" where
  "filterBoolean xs = filter (\<lambda>s. s \<noteq> []) xs"

definition itemNameOf :: "itemToMake option \<Rightarrow> string" where
  "itemNameOf itm =
     (case itm of None \<Rightarrow> ''''
      | Some i \<Rightarrow> (case i_itemReference i of None \<Rightarrow> ''''
          | Some r \<Rightarrow> orStr (orElse (r_name r) (r_number r)) ''''))"

definition itemDescOf :: "itemToMake option \<Rightarrow> string" where
  "itemDescOf itm =
     (case itm of None \<Rightarrow> ''''
      | Some i \<Rightarrow> (case i_itemReference i of None \<Rightarrow> '''' | Some r \<Rightarrow> orStr (r_description r) ''''))"

definition qtyMakeOf :: "itemToMake option \<Rightarrow> string" where
  "qtyMakeOf itm =
     (case itm of None \<Rightarrow> ''''
      | Some i \<Rightarrow> (case i_quantityToMake i of None \<Rightarrow> '''' | Some q \<Rightarrow> ''Qty: '' @ showInt q))"

text \<open>
  \<open>mapJobToEvent(job, primaryOp, itemToMake)\<close>. The line
  \<open>if (!end && start) end = addDaysISO(start, 1)\<close> is kept as the source has it, with the
  RangeError that \<open>addDaysISO\<close> can throw. The description is joined with the two characters
  backslash and \<open>n\<close>, the value of the JavaScript literal \<open>"\\n"\<close>.
\<close>

definition mapJobToEvent :: "dateParse \<Rightarrow> job \<Rightarrow> operation option \<Rightarrow> itemToMake option \<Rightarrow> error + event" where
  "mapJobToEvent P j primaryOp itm =
     (let jobStart = jobStartOf j;
          jobEnd = jobEndOf j;
          opStart = opStartOf primaryOp;
          opEnd = opEndOf primaryOp;
          start = orElse jobStart opStart;
          end0 = orElse (orElse jobEnd opEnd) start;
          endR = (if \<not> truthy end0 \<and> truthy start
                  then map_sum id Some (addDaysISO P start 1) else Inr end0);
          title = (case j_name j of
                     Some n \<Rightarrow> if n \<noteq> [] then n
                               else (case j_number j of Some k \<Rightarrow> ''Job #'' @ showInt k
                                     | None \<Rightarrow> ''Scheduled Work'')
                   | None \<Rightarrow> (case j_number j of Some k \<Rightarrow> ''Job #'' @ showInt k
                              | None \<Rightarrow> ''Scheduled Work''));
          number = (case j_number j of Some k \<Rightarrow> ''#'' @ showInt k | None \<Rightarrow> '''');
          status = orStr (j_status j) '''';
          project = orStr (j_salesOrderId j) '''';
          equipment = orStr (opField o_scheduledEquipmentName primaryOp) '''';
          opName = orStr (opField o_name primaryOp) '''';
          itemName = itemNameOf itm;
          itemDesc = itemDescOf itm;
          qtyMake = qtyMakeOf itm;
          summary = joinWith '' '' (filterBoolean
                      [title, number, if opName \<noteq> [] then ''('' @ opName @ '')'' else '''']);
          location = equipment;
          descLines = filterBoolean
            [if status \<noteq> [] then ''Status: '' @ status else '''',
             if project \<noteq> [] then ''Sales Order: '' @ project else '''',
             if equipment \<noteq> [] then ''Equipment: '' @ equipment else '''',
             if opName \<noteq> [] then ''Operation: '' @ opName else '''',
             if itemName \<noteq> [] then ''Item: '' @ itemName else '''',
             if itemDesc \<noteq> [] then ''Desc: '' @ itemDesc else '''',
             qtyMake,
             if truthy (j_id j) then ''Job ID: '' @ the (j_id j) else ''''];
          categories = filterBoolean [equipment, opName, status]
      in case endR of
           Inl err \<Rightarrow> Inl err
         | Inr end' \<Rightarrow> Inr \<lparr> e_id = j_id j, e_start = start, e_end = end', e_summary = summary,
                           e_location = location,
                           e_description = joinWith [CHR 0x5C, CHR ''n''] descLines,
                           e_categories = categories \<rparr>)"

section \<open>Operation selector\<close>

text \<open>
  A JavaScript number that holds a time value: \<open>None\<close> is \<open>NaN\<close>. \<open>NaN\<close> and 0 are falsy,
  and every comparison with \<open>NaN\<close> is false.
\<close>

definition numTruthy :: "int option \<Rightarrow> bool" where
  "numTruthy n = (case n of None \<Rightarrow> False | Some t \<Rightarrow> t \<noteq> 0)"

definition leNum :: "int option \<Rightarrow> int option \<Rightarrow> bool" where
  "leNum a b = (case a of None \<Rightarrow> False | Some x \<Rightarrow> (case b of None \<Rightarrow> False | Some y \<Rightarrow> x \<le> y))"

definition ltNum :: "int option \<Rightarrow> int option \<Rightarrow> bool" where
  "ltNum a b = (case a of None \<Rightarrow> False | Some x \<Rightarrow> (case b of None \<Rightarrow> False | Some y \<Rightarrow> x < y))"

text \<open>\<open>new Date(v || 0).getTime()\<close>: the parsed string when \<open>v\<close> is truthy, else the epoch.\<close>

definition getTimeOr0 :: "dateParse \<Rightarrow> string option \<Rightarrow> int option" where
  "getTimeOr0 P v = (if truthy v then P (the v) else Some 0)"

text \<open>\<open>new Date(o.scheduledStartUtc || o.originalScheduledStartUtc).getTime()\<close> of a candidate.\<close>

definition opStartMs :: "dateParse \<Rightarrow> operation \<Rightarrow> int option" where
  "opStartMs P o' = (case opStartOf (Some o') of None \<Rightarrow> None | Some s \<Rightarrow> P s)"

text \<open>
  \<open>new Date(o.scheduledEndUtc || o.originalScheduledEndUtc || os).getTime()\<close>: without an end
  string the Date is built from the number \<open>os\<close>.
\<close>

definition opEndMs :: "dateParse \<Rightarrow> operation \<Rightarrow> int option" where
  "opEndMs P o' = (if truthy (opEndOf (Some o')) then P (the (opEndOf (Some o')))
                   else opStartMs P o')"

text \<open>
  \<open>Array.prototype.sort\<close> with the comparator \<open>new Date(a...) - new Date(b...)\<close>. When
  every candidate's start parses, the comparator is a consistent one and ECMAScript fixes
  the result: the stable sort by start time, which the insertion sort below computes
  (\<open>sortOps_sort_key\<close>). When some start does not parse, the comparator yields \<open>NaN\<close>
  for it, ECMAScript leaves the order to the engine, and the order computed here is not
  that of any particular engine: nothing is proved about the selector on such input.
\<close>

definition opCmpPos :: "dateParse \<Rightarrow> operation \<Rightarrow> operation \<Rightarrow> bool" where
  "opCmpPos P a b = ltNum (opStartMs P b) (opStartMs P a)"

fun insertOp :: "dateParse \<Rightarrow> operation \<Rightarrow> operation list \<Rightarrow> operation list" where
  "insertOp P x [] = [x]"
| "insertOp P x (y # ys) = (if opCmpPos P x y then y # insertOp P x ys else x # y # ys)"

definition sortOps :: "dateParse \<Rightarrow> operation list \<Rightarrow> operation list" where
  "sortOps P xs = foldr (insertOp P) xs []"

definition candidates :: "dateParse \<Rightarrow> operation list \<Rightarrow> operation list" where
  "candidates P ops = sortOps P (filter (\<lambda>o'. truthy (opStartOf (Some o'))) ops)"

definition jStartMs :: "dateParse \<Rightarrow> job \<Rightarrow> int option" where
  "jStartMs P j = getTimeOr0 P (jobStartOf j)"

definition jEndMs :: "dateParse \<Rightarrow> job \<Rightarrow> int option" where
  "jEndMs P j = getTimeOr0 P (jobEndOf j)"

definition overlaps :: "dateParse \<Rightarrow> job \<Rightarrow> operation \<Rightarrow> bool" where
  "overlaps P j o' =
     (let os = opStartMs P o'; oe = opEndMs P o' in
      if numTruthy (jEndMs P j) then leNum os (jEndMs P j) \<and> leNum (jStartMs P j) oe
      else leNum (jStartMs P j) os)"

text \<open>\<open>pickPrimaryOperation(job, ops)\<close>; \<open>None\<close> is the \<open>null\<close> it returns.\<close>

definition pickPrimaryOperation :: "dateParse \<Rightarrow> job \<Rightarrow> operation list \<Rightarrow> operation option" where
  "pickPrimaryOperation P j ops =
     (if ops = [] then None
      else (case candidates P ops of
              [] \<Rightarrow> None
            | c # cs \<Rightarrow>
                if numTruthy (jStartMs P j)
                then (case find (overlaps P j) (c # cs) of Some o' \<Rightarrow> Some o' | None \<Rightarrow> Some c)
                else Some c))"

section \<open>Operation cache\<close>

text \<open>
  A JavaScript \<open>Map\<close> keeps its entries in insertion order: \<open>set\<close> on a present key replaces
  the value in place, on a new key it appends; \<open>delete\<close> removes the key's entry. The
  operation cache maps a job identifier to \<open>{ at, data }\<close>.
\<close>

type_synonym ('k, 'v) jsMap = "('k \<times> 'v) list"

fun mapSet :: "'k \<Rightarrow> 'v \<Rightarrow> ('k, 'v) jsMap \<Rightarrow> ('k, 'v) jsMap" where
  "mapSet k v [] = [(k, v)]"
| "mapSet k v (e # m) = (if fst e = k then (k, v) # m else e # mapSet k v m)"

definition mapDelete :: "'k \<Rightarrow> ('k, 'v) jsMap \<Rightarrow> ('k, 'v) jsMap" where
  "mapDelete k m = filter (\<lambda>e. fst e \<noteq> k) m"

definition mapGet :: "'k \<Rightarrow> ('k, 'v) jsMap \<Rightarrow> 'v option" where
  "mapGet k m = map_of m k"

record 'd opsEntry =
  at :: int
  data :: 'd

text \<open>
  \<open>cacheGetOps(jobId)\<close> with the reading \<open>now\<close> of \<open>Date.now()\<close> and the configured
  \<open>OPS_CACHE_TTL_MS\<close>; it returns the data (\<open>None\<close> for \<open>null\<close>) and the cache.
\<close>

definition cacheGetOps ::
  "int \<Rightarrow> int \<Rightarrow> 'k \<Rightarrow> ('k, 'd opsEntry) jsMap \<Rightarrow> 'd option \<times> ('k, 'd opsEntry) jsMap" where
  "cacheGetOps ttl now jobId opsCache =
     (case mapGet jobId opsCache of
        None \<Rightarrow> (None, opsCache)
      | Some hit \<Rightarrow> if now - at hit > ttl then (None, mapDelete jobId opsCache)
                    else (Some (data hit), opsCache))"

text \<open>
  \<open>[...opsCache.entries()].sort((a, b) => a[1].at - b[1].at)[0][0]\<close>: a stable sort by
  \<open>at\<close>, then the key of the first entry. It is only evaluated on a cache of more than
  500 entries.
\<close>

definition oldestKey :: "('k, 'd opsEntry) jsMap \<Rightarrow> 'k" where
  "oldestKey m = fst (hd (sort_key (\<lambda>e. at (snd e)) m))"

definition cachePutOps ::
  "int \<Rightarrow> 'k \<Rightarrow> 'd \<Rightarrow> ('k, 'd opsEntry) jsMap \<Rightarrow> ('k, 'd opsEntry) jsMap" where
  "cachePutOps now jobId d opsCache =
     (let m = mapSet jobId \<lparr> at = now, data = d \<rparr> opsCache in
      if length m > 500 then mapDelete (oldestKey m) m else m)"

text \<open>
  The cache starts empty and is only touched by these two functions; a history of the
  process is a list of calls.
\<close>

datatype ('k, 'd) cacheCall = GetOps int int 'k | PutOps int 'k 'd

fun runCall :: "('k, 'd) cacheCall \<Rightarrow> ('k, 'd opsEntry) jsMap \<Rightarrow> ('k, 'd opsEntry) jsMap" where
  "runCall (GetOps ttl now k) m = snd (cacheGetOps ttl now k m)"
| "runCall (PutOps now k d) m = cachePutOps now k d m"

definition runCalls :: "('k, 'd) cacheCall list \<Rightarrow> ('k, 'd opsEntry) jsMap" where
  "runCalls cs = foldl (\<lambda>m c. runCall c m) [] cs"

definition cacheInv :: "('k, 'd opsEntry) jsMap \<Rightarrow> bool" where
  "cacheInv m = (distinct (map fst m) \<and> length m \<le> 500)"

section \<open>Calendar serializer\<close>

definition CRLF :: string where
  "CRLF = [CHR 0x0D, CHR 0x0A]"

text \<open>
  \<open>icsEscape(s)\<close>: \<open>replace(/([,;])/g, "\\$1")\<close> puts a backslash before every comma and
  semicolon, then \<open>replace(/\n/g, "\\n")\<close> turns every line feed into backslash, \<open>n\<close>.
\<close>

definition escapeCommaSemi :: "string \<Rightarrow> string" where
  "escapeCommaSemi s = concat (map (\<lambda>c. if c = CHR '','' \<or> c = CHR '';'' then [CHR 0x5C, c] else [c]) s)"

definition escapeNewline :: "string \<Rightarrow> string" where
  "escapeNewline s = concat (map (\<lambda>c. if c = CHR 0x0A then [CHR 0x5C, CHR ''n''] else [c]) s)"

definition icsEscape :: "string \<Rightarrow> string" where
  "icsEscape s = escapeNewline (escapeCommaSemi s)"

text \<open>
  The lines both renderers share, from \<open>SUMMARY\<close> on. An entry that the source leaves
  \<open>null\<close> is the empty string here; \<open>filter(Boolean)\<close> drops both alike.
\<close>

definition veventTail :: "string \<Rightarrow> string \<Rightarrow> string \<Rightarrow> string list \<Rightarrow> string list" where
  "veventTail summary location description categories =
     [''SUMMARY:'' @ icsEscape (if summary \<noteq> [] then summary else ''Scheduled Work''),
      if location \<noteq> [] then ''LOCATION:'' @ icsEscape location else '''',
      if description \<noteq> [] then ''DESCRIPTION:'' @ icsEscape description else '''',
      if categories \<noteq> [] then ''CATEGORIES:'' @ joinWith '','' (map icsEscape categories) else '''',
      ''END:VEVENT'']"

text \<open>
  \<open>veventTimed\<close> and \<open>veventAllDay\<close>; \<open>now\<close> is the reading of \<open>Date.now()\<close> for
  \<open>DTSTAMP\<close>. \<open>veventAllDay\<close> raises the RangeError of \<open>addDaysISO\<close> when the inclusive end
  date is not a valid date.
\<close>

definition veventTimed ::
  "dateParse \<Rightarrow> int \<Rightarrow> string \<Rightarrow> string option \<Rightarrow> string option \<Rightarrow> string \<Rightarrow> string \<Rightarrow> string
     \<Rightarrow> string list \<Rightarrow> string" where
  "veventTimed P now uid start end' summary location description categories =
     joinWith CRLF (filterBoolean
       ([''BEGIN:VEVENT'',
         ''UID:'' @ uid,
         ''DTSTAMP:'' @ toUTC (Some now),
         ''DTSTART:'' @ toUTC (dateOf P start),
         ''DTEND:'' @ toUTC (dateOf P (orElse end' start))]
        @ veventTail summary location description categories))"

definition veventAllDay ::
  "dateParse \<Rightarrow> int \<Rightarrow> string \<Rightarrow> string option \<Rightarrow> string option \<Rightarrow> string \<Rightarrow> string \<Rightarrow> string
     \<Rightarrow> string list \<Rightarrow> error + string" where
  "veventAllDay P now uid startDate endDateInclusive summary location description categories =
     (let dtStart = yyyymmdd (dateOf P startDate) in
      case addDaysISO P endDateInclusive 1 of
        Inl err \<Rightarrow> Inl err
      | Inr plus1 \<Rightarrow>
          Inr (joinWith CRLF (filterBoolean
            ([''BEGIN:VEVENT'',
              ''UID:'' @ uid,
              ''DTSTAMP:'' @ toUTC (Some now),
              ''DTSTART;VALUE=DATE:'' @ dtStart,
              ''DTEND;VALUE=DATE:'' @ yyyymmdd (P plus1)]
             @ veventTail summary location description categories))))"

section \<open>Line folding\<close>

text \<open>
  A JavaScript string is a sequence of UTF-16 code units; \<open>length\<close> and \<open>slice\<close> count code
  units, and a character outside the Basic Multilingual Plane is a pair of surrogates.
  The folding stage is modelled on this type, since it mixes code-unit positions with UTF-8
  byte lengths. \<open>units\<close> embeds a string of the earlier stages.
\<close>

type_synonym jsString = "16 word list"

definition units :: "string \<Rightarrow> jsString" where
  "units s = map (\<lambda>c. of_nat (of_char c)) s"

definition isHigh :: "16 word \<Rightarrow> bool" where
  "isHigh c = (0xD800 \<le> c \<and> c \<le> 0xDBFF)"

definition isLow :: "16 word \<Rightarrow> bool" where
  "isLow c = (0xDC00 \<le> c \<and> c \<le> 0xDFFF)"

text \<open>
  \<open>Buffer.byteLength(s, "utf8")\<close>: one to three bytes for a code unit on its own (three for
  an unpaired surrogate, which is encoded as U+FFFD), four bytes for a surrogate pair.
\<close>

definition unitBytes :: "16 word \<Rightarrow> nat" where
  "unitBytes c = (if c < 0x80 then 1 else if c < 0x800 then 2 else 3)"

fun byteLength :: "jsString \<Rightarrow> nat" where
  "byteLength [] = 0"
| "byteLength [c] = unitBytes c"
| "byteLength (c # d # ds) =
     (if isHigh c \<and> isLow d then 4 + byteLength ds else unitBytes c + byteLength (d # ds))"

text \<open>The UTF-8 bytes that Node writes for a string, as \<open>res.send\<close> does.\<close>

definition utf8CodePoint :: "nat \<Rightarrow> 8 word list" where
  "utf8CodePoint cp =
     (if cp < 0x80 then [of_nat cp]
      else if cp < 0x800 then [of_nat (0xC0 + cp div 64), of_nat (0x80 + cp mod 64)]
      else if cp < 0x10000 then
        [of_nat (0xE0 + cp div 4096), of_nat (0x80 + (cp div 64) mod 64), of_nat (0x80 + cp mod 64)]
      else [of_nat (0xF0 + cp div 262144), of_nat (0x80 + (cp div 4096) mod 64),
            of_nat (0x80 + (cp div 64) mod 64), of_nat (0x80 + cp mod 64)])"

definition utf8Unit :: "16 word \<Rightarrow> 8 word list" where
  "utf8Unit c = (if isHigh c \<or> isLow c then utf8CodePoint 0xFFFD else utf8CodePoint (unat c))"

fun utf8 :: "jsString \<Rightarrow> 8 word list" where
  "utf8 [] = []"
| "utf8 [c] = utf8Unit c"
| "utf8 (c # d # ds) =
     (if isHigh c \<and> isLow d
      then utf8CodePoint (0x10000 + (unat c - 0xD800) * 0x400 + (unat d - 0xDC00)) @ utf8 ds
      else utf8Unit c @ utf8 (d # ds))"

text \<open>
  The inner loop of \<open>foldLines\<close>:
  \<open>while (cut > 0 && Buffer.byteLength(cur.slice(0, cut), "utf8") > 75) cut--\<close>.
\<close>

fun cutLoop :: "jsString \<Rightarrow> nat \<Rightarrow> nat" where
  "cutLoop cur k =
     (if k > 0 \<and> byteLength (take k cur) > 75 then cutLoop cur (k - 1) else k)"

declare cutLoop.simps [simp del]

text \<open>
  The outer loop on one line: the pieces pushed to \<open>out\<close>. It terminates because the cut
  is at least 25 code units, so the rest, with its leading space, is shorter.
\<close>

function foldLine :: "jsString \<Rightarrow> jsString list" where
  "foldLine cur =
     (if byteLength cur > 75
      then (let k = cutLoop cur 75 in take k cur # foldLine (0x20 # drop k cur))
      else [cur])"
  by pat_completeness auto
termination
proof (relation "measure length")
  show "wf (measure length)" by simp
next
  fix cur :: jsString and k :: nat
  assume big: "75 < byteLength cur" and k: "k = cutLoop cur 75"
  have ub: "unitBytes c \<le> 3" for c by (simp add: unitBytes_def)
  have bl: "byteLength xs \<le> 3 * length xs" for xs
  proof (induction xs rule: byteLength.induct)
    case 1
    show ?case by simp
  next
    case (2 c)
    show ?case using ub [of c] by simp
  next
    case (3 c d ds)
    show ?case
    proof (cases "isHigh c \<and> isLow d")
      case True
      with 3 show ?thesis by simp
    next
      case False
      with 3 ub [of c] show ?thesis by auto
    qed
  qed
  have ge: "n \<le> 75 \<Longrightarrow> min n 25 \<le> cutLoop xs n" for xs n
  proof (induction xs n rule: cutLoop.induct)
    case (1 xs n)
    show ?case
    proof (cases "n > 0 \<and> byteLength (take n xs) > 75")
      case True
      have "byteLength (take n xs) \<le> 3 * n" using bl [of "take n xs"] by simp
      with True have n: "n > 25" by simp
      from True have "cutLoop xs n = cutLoop xs (n - 1)" by (subst cutLoop.simps) simp
      moreover from 1 True n have "min (n - 1) 25 \<le> cutLoop xs (n - 1)" by simp
      ultimately show ?thesis using n by simp
    next
      case False
      then have "cutLoop xs n = n" by (subst cutLoop.simps) auto
      then show ?thesis by simp
    qed
  qed
  from ge [of 75 cur] k have "25 \<le> k" by simp
  moreover from big bl [of cur] have "25 < length cur" by simp
  ultimately show "(0x20 # drop k cur, cur) \<in> measure length" by simp
qed

declare foldLine.simps [simp del]

text \<open>\<open>text.split("\r\n")\<close> and \<open>out.join("\r\n")\<close>.\<close>

fun splitCRLF :: "jsString \<Rightarrow> jsString list" where
  "splitCRLF (a # b # xs) =
     (if a = 0x0D \<and> b = 0x0A then [] # splitCRLF xs
      else (case splitCRLF (b # xs) of l # ls \<Rightarrow> (a # l) # ls | [] \<Rightarrow> [[a]]))"
| "splitCRLF [] = [[]]"
| "splitCRLF [a] = [[a]]"

fun joinCRLF :: "jsString list \<Rightarrow> jsString" where
  "joinCRLF [] = []"
| "joinCRLF [l] = l"
| "joinCRLF (l # m # ls) = l @ [0x0D, 0x0A] @ joinCRLF (m # ls)"

definition foldLines :: "jsString \<Rightarrow> jsString" where
  "foldLines text = joinCRLF (concat (map foldLine (splitCRLF text)))"

text \<open>\<open>finalizeIcs(ics)\<close>: a final line break when there is none, then the folding.\<close>

definition endsWithCRLF :: "jsString \<Rightarrow> bool" where
  "endsWithCRLF s = (2 \<le> length s \<and> drop (length s - 2) s = [0x0D, 0x0A])"

definition finalizeIcs :: "jsString \<Rightarrow> jsString" where
  "finalizeIcs ics = foldLines (if endsWithCRLF ics then ics else ics @ [0x0D, 0x0A])"


text \<open>
  Auxiliary notions of the proofs: a text that contains a line break, the text after the
  first line of a joined document, the unfolding of one further line, and a text that
  contains a continuation break.
\<close>

fun hasCRLF :: "jsString \<Rightarrow> bool" where
  "hasCRLF (a # b # xs) = ((a = 0x0D \<and> b = 0x0A) \<or> hasCRLF (b # xs))"
| "hasCRLF [] = False"
| "hasCRLF [a] = False"




section \<open>Feed endpoint\<close>

text \<open>
  The configuration read from the environment. \<open>ACCESS_KEY\<close> is \<open>None\<close> when no key is
  configured.
\<close>

record config =
  ACCESS_KEY :: "string option"
  CACHE_TTL_SECONDS :: int
  CREATED_WINDOW_BUFFER_DAYS :: int
  OPS_CONCURRENCY :: int
  OPS_CACHE_TTL_MS :: int

text \<open>
  A request to \<open>/calendar.ics\<close>: its URL (the cache key), the query parameters the handler
  reads, and the \<open>If-None-Match\<close> header.
\<close>

record request =
  r_url :: string
  q_key :: "string option"
  q_s :: "string option"
  q_u :: "string option"
  q_ops :: "string option"
  q_allday :: "string option"
  h_ifNoneMatch :: "string option"

text \<open>
  The readings of \<open>Date.now()\<close> during one request: at the cache read, at the cache lookup
  and the cache store of the \<open>i\<close>-th enriched job, and at the rendering of the \<open>k\<close>-th
  event.
\<close>

record clock =
  t_request :: int
  t_get :: "nat \<Rightarrow> int"
  t_put :: "nat \<Rightarrow> int"
  t_stamp :: "nat \<Rightarrow> int"

text \<open>
  An element of an operation listing: either an object with an \<open>operation\<close> and an
  \<open>itemToMake\<close>, or a bare operation (\<open>o.operation || o\<close>).
\<close>

record wrapper =
  w_operation :: "operation option"
  w_own :: operation
  w_itemToMake :: "itemToMake option"

type_synonym pair = "operation \<times> itemToMake option"

type_synonym primaryMap = "string option \<rightharpoonup> pair option"

type_synonym opsCacheT = "(string option, wrapper list opsEntry) jsMap"

record cacheEntry =
  c_at :: int
  c_body :: jsString
  c_etag :: string

text \<open>The two process-wide caches.\<close>

record server =
  s_cache :: "string \<rightharpoonup> cacheEntry"
  s_opsCache :: opsCacheT

text \<open>
  The responses of the handler: 403, 304 without a body, 200 with the calendar and its
  \<open>ETag\<close>, and 500 for an error caught by the handler's \<open>try\<close>.
\<close>

datatype response = Forbidden | NotModified | Calendar jsString string | ServerError error

definition toPair :: "wrapper \<Rightarrow> pair" where
  "toPair w = ((case w_operation w of Some o' \<Rightarrow> o' | None \<Rightarrow> w_own w), w_itemToMake w)"

text \<open>The pair stored for a job whose operation list \<open>arr\<close> is known.\<close>

definition primaryPair :: "dateParse \<Rightarrow> job \<Rightarrow> wrapper list \<Rightarrow> pair option" where
  "primaryPair P job arr =
     (let pairs = map toPair arr in
      case pickPrimaryOperation P job (map fst pairs) of
        None \<Rightarrow> None
      | Some primary \<Rightarrow>
          (case find (\<lambda>p. o_id (fst p) = o_id primary) pairs of
             Some p \<Rightarrow> Some p
           | None \<Rightarrow> Some (primary, None)))"

text \<open>\<open>since ? new Date(since).getTime() : null\<close>; \<open>null\<close> is falsy like \<open>NaN\<close>.\<close>

definition windowMs :: "dateParse \<Rightarrow> string option \<Rightarrow> int option" where
  "windowMs P v = (if truthy v then dateOf P v else None)"

text \<open>The rough prefilter by job-level dates, before operations are fetched.\<close>

definition prefilterJob :: "dateParse \<Rightarrow> string option \<Rightarrow> string option \<Rightarrow> job \<Rightarrow> bool" where
  "prefilterJob P since until j =
     (let start = orElse (orElse (j_scheduledStartUtc j) (j_originalScheduledStartUtc j))
                         (j_productionDueDate j);
          end' = orElse (orElse (j_scheduledEndUtc j) (j_originalScheduledEndUtc j)) start
      in if \<not> truthy start then False
         else (let s = windowMs P since; u = windowMs P until;
                   js = dateOf P start; je = dateOf P end'
               in if numTruthy s \<and> ltNum je s then False
                  else if numTruthy u \<and> ltNum u js then False
                  else True))"

text \<open>
  The upstream service during one request, as the enrichment sees it. \<open>u_ops i\<close> is the
  outcome of \<open>postJson(JOB_OPS_LIST(job.id), ...)\<close> followed by \<open>unwrapItems\<close> for the job at
  index \<open>i\<close> of the prefiltered list; it is used only when that job misses the cache.
  \<open>u_next\<close> is the order in which the pending listings settle: at the \<open>n\<close>-th settlement,
  with \<open>m\<close> listings pending, the one at position \<open>u_next n mod m\<close> settles (position 0 is
  the listing requested first).
\<close>

record upstream =
  u_ops :: "nat \<Rightarrow> error + wrapper list"
  u_next :: "nat \<Rightarrow> nat"

text \<open>A job taken from the prefiltered list, with its index \<open>i = idx++\<close>.\<close>

type_synonym taken = "nat \<times> job"

text \<open>
  \<open>worker\<close> from the head of its loop to its next \<open>await\<close>. \<open>queue\<close> holds the jobs from
  index \<open>idx\<close> on. A job found in the cache gets its entry of \<open>primaryOpByJob\<close> at once and
  the loop goes on; at the first job that misses the cache the listing is requested and the
  worker is suspended (the result names that job); with the list exhausted the worker
  returns. The result is the job waited for, the rest of the queue, and the two maps.
\<close>

fun worker ::
  "dateParse \<Rightarrow> int \<Rightarrow> clock \<Rightarrow> taken list \<Rightarrow> opsCacheT \<times> primaryMap
     \<Rightarrow> taken option \<times> taken list \<times> opsCacheT \<times> primaryMap" where
  "worker P ttl clk [] st = (None, [], st)"
| "worker P ttl clk (t # queue) st =
     (let got = cacheGetOps ttl (t_get clk (fst t)) (j_id (snd t)) (fst st) in
      case fst got of
        Some arr \<Rightarrow>
          worker P ttl clk queue
            (snd got, (snd st)(j_id (snd t) \<mapsto> primaryPair P (snd t) arr))
      | None \<Rightarrow> (Some t, queue, snd got, snd st))"

text \<open>
  \<open>worker\<close> after the \<open>await\<close>, when the listing of the job \<open>t\<close> has settled: a listing is
  stored in the cache and its primary pair entered; on an error the \<open>catch\<close> sets
  \<open>arr = null\<close>, the entry is \<open>null\<close> and the cache is not touched.
\<close>

definition resume ::
  "dateParse \<Rightarrow> clock \<Rightarrow> upstream \<Rightarrow> taken \<Rightarrow> opsCacheT \<times> primaryMap
     \<Rightarrow> opsCacheT \<times> primaryMap" where
  "resume P clk up t st =
     (case u_ops up (fst t) of
        Inl err \<Rightarrow> (fst st, (snd st)(j_id (snd t) \<mapsto> None))
      | Inr arr \<Rightarrow>
          (cachePutOps (t_put clk (fst t)) (j_id (snd t)) arr (fst st),
           (snd st)(j_id (snd t) \<mapsto> primaryPair P (snd t) arr)))"

text \<open>
  \<open>Array.from({ length: workers }, worker)\<close>: the workers are started one after the other,
  each running to its first \<open>await\<close>. \<open>pending\<close> lists the jobs whose listing is awaited.
\<close>

fun startWorkers ::
  "dateParse \<Rightarrow> int \<Rightarrow> clock \<Rightarrow> nat \<Rightarrow> taken list \<Rightarrow> taken list \<Rightarrow> opsCacheT \<times> primaryMap
     \<Rightarrow> taken list \<times> taken list \<times> opsCacheT \<times> primaryMap" where
  "startWorkers P ttl clk 0 queue pending st = (queue, pending, st)"
| "startWorkers P ttl clk (Suc n) queue pending st =
     (let w = worker P ttl clk queue st in
      startWorkers P ttl clk n (fst (snd w))
        (pending @ (case fst w of None \<Rightarrow> [] | Some t \<Rightarrow> [t])) (snd (snd w)))"

text \<open>
  One settlement: the pending listing chosen by \<open>u_next\<close> settles, its worker resumes and
  runs to its next \<open>await\<close> or to its end.
\<close>

definition settle ::
  "dateParse \<Rightarrow> int \<Rightarrow> clock \<Rightarrow> upstream \<Rightarrow> nat \<Rightarrow> taken list \<Rightarrow> taken list
     \<Rightarrow> opsCacheT \<times> primaryMap \<Rightarrow> taken list \<times> taken list \<times> opsCacheT \<times> primaryMap" where
  "settle P ttl clk up n queue pending st =
     (let k = u_next up n mod length pending;
          w = worker P ttl clk queue (resume P clk up (pending ! k) st)
      in (fst (snd w),
          take k pending @ drop (Suc k) pending @ (case fst w of None \<Rightarrow> [] | Some t \<Rightarrow> [t]),
          snd (snd w)))"

text \<open>
  \<open>await Promise.all(...)\<close>: settlements follow one another until no listing is pending,
  which is when every worker has returned. Every settlement takes a job off the queue or
  off the pending listings, so this ends.
\<close>

function promiseAll ::
  "dateParse \<Rightarrow> int \<Rightarrow> clock \<Rightarrow> upstream \<Rightarrow> nat \<Rightarrow> taken list \<Rightarrow> taken list
     \<Rightarrow> opsCacheT \<times> primaryMap \<Rightarrow> opsCacheT \<times> primaryMap" where
  "promiseAll P ttl clk up n queue pending st =
     (if pending = [] then st
      else promiseAll P ttl clk up (Suc n)
             (fst (settle P ttl clk up n queue pending st))
             (fst (snd (settle P ttl clk up n queue pending st)))
             (snd (snd (settle P ttl clk up n queue pending st))))"
  by pat_completeness auto
termination
proof (relation "measure (\<lambda>(P, ttl, clk, up, n, queue, pending, st). length queue + length pending)")
  show "wf (measure (\<lambda>(P, ttl, clk, up, n, queue, pending, st). length queue + length pending))"
    by simp
next
  fix P :: dateParse and ttl :: int and clk :: clock and up :: upstream and n :: nat
    and queue pending :: "taken list" and st :: "opsCacheT \<times> primaryMap"
  assume ne: "pending \<noteq> []"
  let ?k = "u_next up n mod length pending"
  let ?w = "worker P ttl clk queue (resume P clk up (pending ! ?k) st)"
  have wl: "length (fst (snd (worker P ttl clk q s)))
              + length (case fst (worker P ttl clk q s) of None \<Rightarrow> [] | Some t \<Rightarrow> [t])
            \<le> length q" for q s
  proof (induction q arbitrary: s)
    case Nil
    show ?case by simp
  next
    case (Cons t q)
    show ?case
    proof (cases "fst (cacheGetOps ttl (t_get clk (fst t)) (j_id (snd t)) (fst s))")
      case None
      then show ?thesis by (simp add: Let_def)
    next
      case (Some arr)
      then show ?thesis
        using Cons.IH [of "(snd (cacheGetOps ttl (t_get clk (fst t)) (j_id (snd t)) (fst s)),
                            (snd s)(j_id (snd t) \<mapsto> primaryPair P (snd t) arr))"]
        by (simp add: Let_def)
    qed
  qed
  have k: "?k < length pending" using ne by simp
  have "length (fst (snd ?w)) + length (case fst ?w of None \<Rightarrow> [] | Some t \<Rightarrow> [t])
          \<le> length queue"
    by (rule wl)
  moreover have "length (take ?k pending @ drop (Suc ?k) pending) + 1 = length pending"
    using k by simp
  ultimately have "length (fst (settle P ttl clk up n queue pending st))
           + length (fst (snd (settle P ttl clk up n queue pending st)))
         < length queue + length pending"
    by (simp add: settle_def Let_def)
  then show "((P, ttl, clk, up, Suc n, fst (settle P ttl clk up n queue pending st),
               fst (snd (settle P ttl clk up n queue pending st)),
               snd (snd (settle P ttl clk up n queue pending st))),
              (P, ttl, clk, up, n, queue, pending, st))
             \<in> measure (\<lambda>(P, ttl, clk, up, n, queue, pending, st). length queue + length pending)"
    by (simp add: case_prod_beta)
qed

declare promiseAll.simps [simp del]

text \<open>
  The enrichment: the prefilter, then
  \<open>workers = Math.min(OPS_CONCURRENCY, Math.max(prefiltered.length, 1))\<close> workers over the
  prefiltered jobs. \<open>OPS_CONCURRENCY\<close> is taken to be an integer; \<open>Array.from\<close> makes no
  worker for a length below 1.
\<close>

definition enrich ::
  "dateParse \<Rightarrow> config \<Rightarrow> clock \<Rightarrow> upstream \<Rightarrow> string option \<Rightarrow> string option
     \<Rightarrow> bool \<Rightarrow> job list \<Rightarrow> opsCacheT \<Rightarrow> opsCacheT \<times> primaryMap" where
  "enrich P cfg clk up since until includeOps jobs oc =
     (if includeOps
      then (let prefiltered = filter (prefilterJob P since until) jobs;
                workers = nat (min (OPS_CONCURRENCY cfg) (max (int (length prefiltered)) 1));
                s = startWorkers P (OPS_CACHE_TTL_MS cfg) clk workers
                      (enumerate 0 prefiltered) [] (oc, Map.empty)
            in promiseAll P (OPS_CACHE_TTL_MS cfg) clk up 0 (fst s) (fst (snd s)) (snd (snd s)))
      else (oc, Map.empty))"



text \<open>\<open>primaryOpByJob.get(j.id)\<close>, with \<open>undefined\<close> and \<open>null\<close> both \<open>None\<close>.\<close>

definition pairOf :: "primaryMap \<Rightarrow> job \<Rightarrow> pair option" where
  "pairOf pm j = (case pm (j_id j) of Some (Some p) \<Rightarrow> Some p | _ \<Rightarrow> None)"

definition toMs :: "dateParse \<Rightarrow> string option \<Rightarrow> int option" where
  "toMs P d = (if truthy d then dateOf P d else None)"

text \<open>The callback of \<open>jobs.filter\<close> that selects the jobs of the feed.\<close>

definition keepJob :: "dateParse \<Rightarrow> string option \<Rightarrow> string option \<Rightarrow> primaryMap \<Rightarrow> job \<Rightarrow> bool" where
  "keepJob P since until pm j =
     (let op = map_option fst (pairOf pm j);
          start = orElse (orElse (orElse (orElse (opField o_scheduledStartUtc op)
                    (opField o_originalScheduledStartUtc op)) (j_scheduledStartUtc j))
                    (j_originalScheduledStartUtc j)) (j_productionDueDate j);
          end' = orElse (orElse (orElse (orElse (opField o_scheduledEndUtc op)
                    (opField o_originalScheduledEndUtc op)) (j_scheduledEndUtc j))
                    (j_originalScheduledEndUtc j)) start
      in if \<not> truthy start then False
         else (let s = toMs P start;
                   e = (if numTruthy (toMs P end') then toMs P end' else s);
                   winStart = windowMs P since; winEnd = windowMs P until
               in if numTruthy winStart \<and> ltNum e winStart then False
                  else if numTruthy winEnd \<and> ltNum winEnd s then False
                  else True))"

definition filteredJobs ::
  "dateParse \<Rightarrow> string option \<Rightarrow> string option \<Rightarrow> primaryMap \<Rightarrow> job list \<Rightarrow> job list" where
  "filteredJobs P since until pm jobs = filter (keepJob P since until pm) jobs"

definition eventOf :: "dateParse \<Rightarrow> primaryMap \<Rightarrow> job \<Rightarrow> error + event" where
  "eventOf P pm j =
     mapJobToEvent P j (map_option fst (pairOf pm j))
       (case pairOf pm j of Some p \<Rightarrow> snd p | None \<Rightarrow> None)"

text \<open>\<open>Array.prototype.map\<close> with a callback that can throw: the first error ends it.\<close>

fun sequenceE :: "(error + 'a) list \<Rightarrow> error + 'a list" where
  "sequenceE [] = Inr []"
| "sequenceE (x # xs) =
     (case x of Inl err \<Rightarrow> Inl err
      | Inr v \<Rightarrow> (case sequenceE xs of Inl err \<Rightarrow> Inl err | Inr vs \<Rightarrow> Inr (v # vs)))"

text \<open>
  The \<open>VEVENT\<close> block of one event. \<open>sha\<close> is the hexadecimal SHA-1 digest of Node's
  \<open>crypto\<close>, a parameter; an absent identifier prints as \<open>undefined\<close>.
\<close>

definition renderEvent ::
  "dateParse \<Rightarrow> (jsString \<Rightarrow> string) \<Rightarrow> bool \<Rightarrow> int \<Rightarrow> event \<Rightarrow> error + string" where
  "renderEvent P sha allDay now e =
     (let uid = sha (units (''fulcrum:'' @ (case e_id e of Some i \<Rightarrow> i | None \<Rightarrow> ''undefined'')))
                @ ''@bettis''
      in if allDay
         then veventAllDay P now uid (orElse (e_start e) (e_end e)) (orElse (e_end e) (e_start e))
                (e_summary e) (e_location e) (e_description e) (e_categories e)
         else Inr (veventTimed P now uid (e_start e) (e_end e)
                (e_summary e) (e_location e) (e_description e) (e_categories e)))"

fun renderEvents ::
  "dateParse \<Rightarrow> (jsString \<Rightarrow> string) \<Rightarrow> bool \<Rightarrow> clock \<Rightarrow> nat \<Rightarrow> event list
     \<Rightarrow> (error + string) list" where
  "renderEvents P sha allDay clk k [] = []"
| "renderEvents P sha allDay clk k (e # es) =
     renderEvent P sha allDay (t_stamp clk k) e # renderEvents P sha allDay clk (Suc k) es"

definition calendarText :: "string \<Rightarrow> string" where
  "calendarText icsBody =
     joinWith CRLF
       [''BEGIN:VCALENDAR'', ''VERSION:2.0'', ''PRODID:-//Bettis//Fulcrum Jobs Schedule//EN'',
        ''CALSCALE:GREGORIAN'', ''METHOD:PUBLISH'', ''X-WR-CALNAME:Fulcrum Schedule'',
        ''X-WR-TIMEZONE:UTC'', icsBody, ''END:VCALENDAR'']"

text \<open>
  \<open>addDaysISO\<close> on a window bound that is present; the result goes into the body of the
  listing request.
\<close>

definition createdBound :: "dateParse \<Rightarrow> string option \<Rightarrow> int \<Rightarrow> error + string option" where
  "createdBound P v n = (if truthy v then map_sum id Some (addDaysISO P v n) else Inr None)"

text \<open>
  The handler after a cache miss, up to \<open>finalizeIcs\<close>. \<open>jobsResp\<close> is the outcome of
  \<open>postJson(JOBS_LIST, listBody)\<close> followed by \<open>unwrapItems\<close>; the body of that request
  (limit, statuses, created window) is not modelled beyond the error that computing the
  created window can raise. The operation cache keeps what the enrichment did to it even
  when a later step fails.
\<close>

definition buildFeed ::
  "dateParse \<Rightarrow> config \<Rightarrow> clock \<Rightarrow> (jsString \<Rightarrow> string) \<Rightarrow> error + job list
     \<Rightarrow> upstream \<Rightarrow> request \<Rightarrow> opsCacheT \<Rightarrow> (error + jsString) \<times> opsCacheT" where
  "buildFeed P cfg clk sha jobsResp up req oc =
     (let since = q_s req; until = q_u req;
          includeOps = (q_ops req = Some ''1'');
          allDay = (q_allday req \<noteq> Some ''0'')
      in case createdBound P since (- CREATED_WINDOW_BUFFER_DAYS cfg) of
           Inl err \<Rightarrow> (Inl err, oc)
         | Inr createdAfterUtc \<Rightarrow>
        (case createdBound P until (CREATED_WINDOW_BUFFER_DAYS cfg) of
           Inl err \<Rightarrow> (Inl err, oc)
         | Inr createdBeforeUtc \<Rightarrow>
        (case jobsResp of
           Inl err \<Rightarrow> (Inl err, oc)
         | Inr jobs \<Rightarrow>
        (let en = enrich P cfg clk up since until includeOps jobs oc;
             pm = snd en
         in case sequenceE (map (eventOf P pm) (filteredJobs P since until pm jobs)) of
              Inl err \<Rightarrow> (Inl err, fst en)
            | Inr events \<Rightarrow>
           (case sequenceE (renderEvents P sha allDay clk 0 events) of
              Inl err \<Rightarrow> (Inl err, fst en)
            | Inr blocks \<Rightarrow>
                (Inr (finalizeIcs (units (calendarText (joinWith CRLF blocks)))), fst en))))))"

text \<open>The read of the per-URL cache: an entry younger than the time-to-live is a hit.\<close>

definition cacheHit :: "config \<Rightarrow> int \<Rightarrow> string \<Rightarrow> (string \<rightharpoonup> cacheEntry) \<Rightarrow> cacheEntry option" where
  "cacheHit cfg now key cache =
     (case cache key of
        None \<Rightarrow> None
      | Some hit \<Rightarrow> if now - c_at hit < CACHE_TTL_SECONDS cfg * 1000 then Some hit else None)"

text \<open>
  The handler of \<open>GET /calendar.ics\<close>. Requests are handled one after the other: the
  state a request starts from is the state the previous one left.
\<close>

definition calendarRoute ::
  "dateParse \<Rightarrow> config \<Rightarrow> clock \<Rightarrow> (jsString \<Rightarrow> string) \<Rightarrow> error + job list
     \<Rightarrow> upstream \<Rightarrow> request \<Rightarrow> server \<Rightarrow> response \<times> server" where
  "calendarRoute P cfg clk sha jobsResp up req srv =
     (if truthy (ACCESS_KEY cfg) \<and> q_key req \<noteq> ACCESS_KEY cfg then (Forbidden, srv)
      else (let now = t_request clk in
        case cacheHit cfg now (r_url req) (s_cache srv) of
          Some hit \<Rightarrow>
            if truthy (h_ifNoneMatch req) \<and> h_ifNoneMatch req = Some (c_etag hit)
            then (NotModified, srv)
            else (Calendar (c_body hit) (c_etag hit), srv)
        | None \<Rightarrow>
            (let built = buildFeed P cfg clk sha jobsResp up req (s_opsCache srv) in
             case fst built of
               Inl err \<Rightarrow> (ServerError err, srv \<lparr> s_opsCache := snd built \<rparr>)
             | Inr safeIcs \<Rightarrow>
                 (let etag = ''W/'' @ [CHR 0x22] @ sha safeIcs @ [CHR 0x22] in
                  (Calendar safeIcs etag,
                   srv \<lparr> s_cache := (s_cache srv)(r_url req \<mapsto>
                            \<lparr> c_at = now, c_body = safeIcs, c_etag = etag \<rparr>),
                         s_opsCache := snd built \<rparr>)))))"

section \<open>A date parser for the examples\<close>

text \<open>
  \<open>Date.parse\<close> on the ECMAScript date-time string format, restricted to the forms
  \<open>YYYY-MM-DD\<close>, \<open>YYYY-MM-DDTHH:mm:ssZ\<close> and \<open>YYYY-MM-DDTHH:mm:ss.sssZ\<close> (the form
  \<open>toISOString\<close> writes); any other string is reported as unparseable. It instantiates the
  parameter \<open>P\<close> in the concrete examples, on strings of these forms only.
\<close>

definition isDigit :: "char \<Rightarrow> bool" where
  "isDigit c = (c \<in> set ''0123456789'')"

definition digitVal :: "char \<Rightarrow> int" where
  "digitVal c = int (length (takeWhile (\<lambda>d. d \<noteq> c) ''0123456789''))"

definition digitsVal :: "string \<Rightarrow> int option" where
  "digitsVal s = (if s \<noteq> [] \<and> list_all isDigit s
                  then Some (foldl (\<lambda>a c. 10 * a + digitVal c) 0 s) else None)"

definition isLeap :: "int \<Rightarrow> bool" where
  "isLeap y = (y mod 4 = 0 \<and> (y mod 100 \<noteq> 0 \<or> y mod 400 = 0))"

definition daysInMonth :: "int \<Rightarrow> int \<Rightarrow> int" where
  "daysInMonth y m = (if m = 2 then (if isLeap y then 29 else 28)
                      else if m \<in> {4, 6, 9, 11} then 30 else 31)"

definition parseDatePart :: "string \<Rightarrow> int option" where
  "parseDatePart s =
     (if length s = 10 \<and> s ! 4 = CHR ''-'' \<and> s ! 7 = CHR ''-'' then
        (case (digitsVal (take 4 s), digitsVal (take 2 (drop 5 s)), digitsVal (drop 8 s)) of
           (Some y, Some m, Some d) \<Rightarrow>
             if 1 \<le> m \<and> m \<le> 12 \<and> 1 \<le> d \<and> d \<le> daysInMonth y m
             then Some (daysFromCivil y m d * msPerDay) else None
         | _ \<Rightarrow> None)
      else None)"

definition parseTimePart :: "string \<Rightarrow> int option" where
  "parseTimePart s =
     (if length s = 8 \<and> s ! 2 = CHR '':'' \<and> s ! 5 = CHR '':'' then
        (case (digitsVal (take 2 s), digitsVal (take 2 (drop 3 s)), digitsVal (drop 6 s)) of
           (Some h, Some mi, Some se) \<Rightarrow>
             if h \<le> 23 \<and> mi \<le> 59 \<and> se \<le> 59
             then Some (h * 3600000 + mi * 60000 + se * 1000) else None
         | _ \<Rightarrow> None)
      else None)"

definition isoParse :: dateParse where
  "isoParse s =
     (let n = length s in
      if n = 10 then parseDatePart s
      else if n = 20 \<and> s ! 10 = CHR ''T'' \<and> s ! 19 = CHR ''Z'' then
        (case (parseDatePart (take 10 s), parseTimePart (take 8 (drop 11 s))) of
           (Some d, Some t) \<Rightarrow> Some (d + t) | _ \<Rightarrow> None)
      else if n = 24 \<and> s ! 10 = CHR ''T'' \<and> s ! 19 = CHR ''.'' \<and> s ! 23 = CHR ''Z'' then
        (case (parseDatePart (take 10 s), parseTimePart (take 8 (drop 11 s)),
               digitsVal (take 3 (drop 20 s))) of
           (Some d, Some t, Some ms) \<Rightarrow> Some (d + t + ms) | _ \<Rightarrow> None)
      else None)"

section \<open>Example inputs\<close>

definition emptyJob :: job where
  "emptyJob = \<lparr> j_id = None, j_name = None, j_number = None, j_status = None,
                j_salesOrderId = None, j_scheduledStartUtc = None,
                j_originalScheduledStartUtc = None, j_productionDueDate = None,
                j_scheduledEndUtc = None, j_originalScheduledEndUtc = None \<rparr>"

definition emptyOp :: operation where
  "emptyOp = \<lparr> o_id = None, o_name = None, o_scheduledEquipmentName = None,
               o_scheduledStartUtc = None, o_originalScheduledStartUtc = None,
               o_scheduledEndUtc = None, o_originalScheduledEndUtc = None \<rparr>"

text \<open>The job of the specification's scenario.\<close>

definition jobJ1 :: job where
  "jobJ1 = emptyJob \<lparr> j_id := Some ''J1'', j_number := Some 7, j_status := Some ''scheduled'',
             j_scheduledStartUtc := Some ''2024-06-01T10:00:00Z'',
             j_scheduledEndUtc := Some ''2024-06-01T11:00:00Z'' \<rparr>"

text \<open>A job with a start only, and an operation scheduled the week before it.\<close>

definition jobStartOnly :: job where
  "jobStartOnly = emptyJob \<lparr> j_id := Some ''J3'', j_number := Some 9,
             j_scheduledStartUtc := Some ''2024-06-10T00:00:00Z'' \<rparr>"

definition opEarlier :: operation where
  "opEarlier = emptyOp \<lparr> o_id := Some ''OP1'', o_name := Some ''Cut'',
             o_scheduledStartUtc := Some ''2024-06-01T08:00:00Z'',
             o_scheduledEndUtc := Some ''2024-06-01T09:00:00Z'' \<rparr>"

definition opLater :: operation where
  "opLater = emptyOp \<lparr> o_id := Some ''OP2'', o_name := Some ''Weld'',
             o_originalScheduledStartUtc := Some ''2024-06-12T08:00:00Z'' \<rparr>"

text \<open>A job whose only start field does not parse.\<close>

definition jobBadStart :: job where
  "jobBadStart = emptyJob \<lparr> j_id := Some ''J4'', j_productionDueDate := Some ''TBD'' \<rparr>"

definition jobNoEnd :: job where
  "jobNoEnd = emptyJob \<lparr> j_id := Some ''J2'',
             j_scheduledStartUtc := Some ''2024-06-01T10:00:00Z'' \<rparr>"

text \<open>A history that fills the operation cache with the keys \<open>0, ..., n - 1\<close>.\<close>

definition fillCalls :: "nat \<Rightarrow> (nat, unit) cacheCall list" where
  "fillCalls n = map (\<lambda>i. PutOps (int i) i ()) [0..<n]"

definition filled :: "nat \<Rightarrow> nat \<Rightarrow> (nat, unit opsEntry) jsMap" where
  "filled a b = map (\<lambda>i. (i, \<lparr> at = int i, data = () \<rparr>)) [a..<b]"

text \<open>The event that the scenario job maps to.\<close>

definition descJ1 :: string where
  "descJ1 = ''Status: scheduled'' @ [CHR 0x5C, CHR ''n''] @ ''Job ID: J1''"

definition eventJ1 :: event where
  "eventJ1 = \<lparr> e_id = Some ''J1'', e_start = Some ''2024-06-01T10:00:00Z'',
        e_end = Some ''2024-06-01T11:00:00Z'', e_summary = ''Job #7 #7'',
        e_location = [], e_description = descJ1, e_categories = [''scheduled''] \<rparr>"

text \<open>
  The event that the job with a start only maps to with the earlier operation as primary
  operation, and the one it maps to without an operation.
\<close>

definition eventInverted :: event where
  "eventInverted = \<lparr> e_id = Some ''J3'', e_start = Some ''2024-06-10T00:00:00Z'',
        e_end = Some ''2024-06-01T09:00:00Z'', e_summary = ''Job #9 #9 (Cut)'',
        e_location = [],
        e_description = ''Operation: Cut'' @ [CHR 0x5C, CHR ''n''] @ ''Job ID: J3'',
        e_categories = [''Cut''] \<rparr>"


text \<open>
  A summary line of 72 ASCII characters (\<open>SUMMARY:\<close> and 64 times \<open>a\<close>), then U+1F600
  (the surrogate pair D83D DE00), then \<open>bbb\<close>: 77 code units, 79 bytes in UTF-8.
\<close>

definition asciiPart :: jsString where
  "asciiPart = [0x53, 0x55, 0x4D, 0x4D, 0x41, 0x52, 0x59, 0x3A] @ replicate 64 0x61"

definition emojiLine :: jsString where
  "emojiLine = asciiPart @ [0xD83D, 0xDE00, 0x62, 0x62, 0x62]"

text \<open>A configuration without access key, with the default time-to-live of 60 seconds.\<close>

definition cfg0 :: config where
  "cfg0 = \<lparr> ACCESS_KEY = None, CACHE_TTL_SECONDS = 60, CREATED_WINDOW_BUFFER_DAYS = 180,
            OPS_CONCURRENCY = 8, OPS_CACHE_TTL_MS = 300000 \<rparr>"

text \<open>A clock that reads \<open>t\<close> during the whole request.\<close>

definition clockAt :: "int \<Rightarrow> clock" where
  "clockAt t = \<lparr> t_request = t, t_get = (\<lambda>i. t), t_put = (\<lambda>i. t), t_stamp = (\<lambda>k. t) \<rparr>"

text \<open>
  A stand-in for the SHA-1 digest in the examples. The theorems hold for every digest
  function; the examples never depend on what this one computes for a document.
\<close>

definition exampleDigest :: "jsString \<Rightarrow> string" where
  "exampleDigest s = showNat (length s) @ ''-'' @ showNat (sum_list (map unat s))"

definition etagOf :: "jsString \<Rightarrow> string" where
  "etagOf body = ''W/'' @ [CHR 0x22] @ exampleDigest body @ [CHR 0x22]"

definition req0 :: request where
  "req0 = \<lparr> r_url = ''/calendar.ics?allday=0'', q_key = None, q_s = None, q_u = None,
            q_ops = None, q_allday = Some ''0'', h_ifNoneMatch = None \<rparr>"


definition srv0 :: server where
  "srv0 = \<lparr> s_cache = Map.empty, s_opsCache = [] \<rparr>"

text \<open>
  An upstream whose every operation listing is empty, and one whose listing for the job at
  index 1 fails, the listing requested last settling first.
\<close>

definition noOps :: upstream where
  "noOps = \<lparr> u_ops = (\<lambda>i. Inr []), u_next = (\<lambda>n. 0) \<rparr>"


definition jobNoDates :: job where
  "jobNoDates = emptyJob \<lparr> j_id := Some ''J0'', j_name := Some ''Undated'' \<rparr>"

text \<open>The document the feed of the scenario job renders to at time \<open>now\<close>, before and after \<open>finalizeIcs\<close>.\<close>

definition uidJ1 :: string where
  "uidJ1 = exampleDigest (units ''fulcrum:J1'') @ ''@bettis''"

definition feedText :: "int \<Rightarrow> string" where
  "feedText now = calendarText (veventTimed isoParse now uidJ1 (e_start eventJ1) (e_end eventJ1)
       (e_summary eventJ1) (e_location eventJ1) (e_description eventJ1) (e_categories eventJ1))"

definition bodyAt :: "int \<Rightarrow> jsString" where
  "bodyAt now = finalizeIcs (units (feedText now))"




text \<open>The server after a first request at time 0, and a conditional request for the same URL.\<close>

definition srvFirst :: server where
  "srvFirst = snd (calendarRoute isoParse cfg0 (clockAt 0) exampleDigest (Inr [jobJ1]) noOps
                     req0 srv0)"


section \<open>Properties of the event mapper\<close>

lemma window_dead: "\<not> (\<not> truthy (orElse x s) \<and> truthy s)"
  by (simp add: orElse_def)

text \<open>
  The mapper never raises: the guard of its only raising statement is never true, because
  \<open>end\<close> already falls back to \<open>start\<close>.
\<close>

lemma mapJobToEvent_window:
  "\<exists>e. mapJobToEvent P j op itm = Inr e \<and>
       e_start e = orElse (jobStartOf j) (opStartOf op) \<and>
       e_end e = orElse (orElse (jobEndOf j) (opEndOf op)) (orElse (jobStartOf j) (opStartOf op))"
  unfolding mapJobToEvent_def Let_def
  by (simp only: window_dead if_False sum.case) auto

text \<open>
  Claim C1, as the code has it. The event start is the job's effective start
  (scheduled start, else original scheduled start, else production due date) when the job
  has one; only when the job has none is it the primary operation's effective start
  (scheduled start, else original scheduled start). The claim states the opposite
  preference.
\<close>

theorem mapJobToEvent_start_job_first:
  "\<exists>e. mapJobToEvent P j op itm = Inr e \<and>
       e_start e =
         (if truthy (j_scheduledStartUtc j) then j_scheduledStartUtc j
          else if truthy (j_originalScheduledStartUtc j) then j_originalScheduledStartUtc j
          else if truthy (j_productionDueDate j) then j_productionDueDate j
          else if truthy (opField o_scheduledStartUtc op) then opField o_scheduledStartUtc op
          else opField o_originalScheduledStartUtc op)"
  using mapJobToEvent_window [of P j op itm]
  by (auto simp add: jobStartOf_def opStartOf_def orElse_def)

theorem mapJobToEvent_start_job_first_witness:
  "\<exists>e. mapJobToEvent isoParse jobStartOnly (Some opEarlier) None = Inr e \<and>
       e_start e = Some ''2024-06-10T00:00:00Z''"
  using mapJobToEvent_start_job_first [of isoParse jobStartOnly "Some opEarlier" None]
  by (simp add: jobStartOnly_def emptyJob_def truthy_def)

text \<open>
  Claim C1 as stated fails: the operation has a scheduled start, and the event start is
  the job's scheduled start all the same.
\<close>

theorem mapJobToEvent_start_counterexample:
  "opStartOf (Some opEarlier) = Some ''2024-06-01T08:00:00Z'' \<and>
   map_sum id e_start (mapJobToEvent isoParse jobStartOnly (Some opEarlier) None)
     = Inr (Some ''2024-06-10T00:00:00Z'') \<and>
   map_sum id e_start (mapJobToEvent isoParse jobStartOnly (Some opEarlier) None)
     \<noteq> Inr (opStartOf (Some opEarlier))"
  by code_simp

text \<open>
  Claim C2, as the code has it. When the derived start is defined and neither the job nor
  the primary operation supplies an end, the mapper sets the event end to the start itself.
  The mapper has no mode argument, so this holds in timed and in all-day mode alike.
\<close>

theorem mapJobToEvent_end_is_start:
  assumes "truthy (orElse (jobStartOf j) (opStartOf op))"
      and "\<not> truthy (jobEndOf j)" and "\<not> truthy (opEndOf op)"
  shows "\<exists>e. mapJobToEvent P j op itm = Inr e \<and> truthy (e_start e) \<and> e_end e = e_start e"
  using mapJobToEvent_window [of P j op itm] assms
  by (auto simp add: orElse_def)

theorem mapJobToEvent_end_is_start_witness:
  "truthy (orElse (jobStartOf jobNoEnd) (opStartOf None)) \<and>
   \<not> truthy (jobEndOf jobNoEnd) \<and> \<not> truthy (opEndOf None) \<and>
   (\<exists>e. mapJobToEvent isoParse jobNoEnd None None = Inr e \<and> truthy (e_start e)
        \<and> e_end e = e_start e)"
proof -
  have a: "truthy (orElse (jobStartOf jobNoEnd) (opStartOf None))" by code_simp
  have b: "\<not> truthy (jobEndOf jobNoEnd)" by code_simp
  have c: "\<not> truthy (opEndOf None)" by code_simp
  show ?thesis using a b c mapJobToEvent_end_is_start [OF a b c, of isoParse None] by simp
qed

text \<open>
  Claim C2 as stated fails: for a job with a start and no end the event end is the start,
  10:00:00, neither 10:30:00 (start plus 30 minutes) nor the next day (start plus 1 day).
\<close>

theorem mapJobToEvent_end_counterexample:
  "map_sum id e_start (mapJobToEvent isoParse jobNoEnd None None)
     = Inr (Some ''2024-06-01T10:00:00Z'') \<and>
   map_sum id e_end (mapJobToEvent isoParse jobNoEnd None None)
     = Inr (Some ''2024-06-01T10:00:00Z'') \<and>
   isoParse ''2024-06-01T10:00:00Z'' = Some 1717236000000 \<and>
   toISOString (Some (1717236000000 + 30 * 60 * 1000)) = Inr ''2024-06-01T10:30:00.000Z'' \<and>
   addDaysISO isoParse (Some ''2024-06-01T10:00:00Z'') 1 = Inr ''2024-06-02T10:00:00.000Z''"
  by code_simp

text \<open>
  The start and the end of the event are chosen independently: an end that the job or the
  operation supplies is copied as it is, whichever of the two supplied the start.
\<close>

lemma mapJobToEvent_end_copied:
  assumes "truthy (orElse (jobEndOf j) (opEndOf op))"
  shows "\<exists>e. mapJobToEvent P j op itm = Inr e \<and>
             e_start e = orElse (jobStartOf j) (opStartOf op) \<and>
             e_end e = orElse (jobEndOf j) (opEndOf op)"
  using mapJobToEvent_window [of P j op itm] assms by (auto simp add: orElse_def)

lemma mapJ3_inverted:
  "mapJobToEvent isoParse jobStartOnly (Some opEarlier) None = Inr eventInverted"
  by code_simp

lemma uidJ3_value: "exampleDigest (units ''fulcrum:J3'') = ''10-949''"
  unfolding exampleDigest_def by code_simp

text \<open>
  Claim C4 fails in the code. A job with a scheduled start on 10 June and no end has one
  operation, scheduled on 1 June from 08:00 to 09:00. The selector finds no operation that
  starts on or after the job's start and falls back to the earliest one; the mapper takes
  the start from the job and the end from that operation. The event passes the window
  filter and is rendered with its end nine days before its start: as an all-day event from
  20240610 to 20240602, as a timed event from 20240610T000000Z to 20240601T090000Z.
\<close>

theorem mapJobToEvent_inverted_window:
  "pickPrimaryOperation isoParse jobStartOnly [opEarlier] = Some opEarlier \<and>
   mapJobToEvent isoParse jobStartOnly (Some opEarlier) None = Inr eventInverted \<and>
   e_start eventInverted = Some ''2024-06-10T00:00:00Z'' \<and>
   e_end eventInverted = Some ''2024-06-01T09:00:00Z'' \<and>
   dateOf isoParse (e_start eventInverted) = Some 1717977600000 \<and>
   dateOf isoParse (e_end eventInverted) = Some 1717232400000 \<and>
   ltNum (dateOf isoParse (e_end eventInverted)) (dateOf isoParse (e_start eventInverted)) \<and>
   keepJob isoParse None None [j_id jobStartOnly \<mapsto> Some (opEarlier, None)] jobStartOnly \<and>
   renderEvent isoParse exampleDigest True 0 eventInverted =
     Inr (''BEGIN:VEVENT'' @ CRLF @ ''UID:10-949@bettis'' @ CRLF @
          ''DTSTAMP:19700101T000000Z'' @ CRLF @
          ''DTSTART;VALUE=DATE:20240610'' @ CRLF @ ''DTEND;VALUE=DATE:20240602'' @ CRLF @
          ''SUMMARY:Job #9 #9 (Cut)'' @ CRLF @
          ''DESCRIPTION:Operation: Cut'' @ [CHR 0x5C, CHR ''n''] @ ''Job ID: J3'' @ CRLF @
          ''CATEGORIES:Cut'' @ CRLF @ ''END:VEVENT'') \<and>
   renderEvent isoParse exampleDigest False 0 eventInverted =
     Inr (''BEGIN:VEVENT'' @ CRLF @ ''UID:10-949@bettis'' @ CRLF @
          ''DTSTAMP:19700101T000000Z'' @ CRLF @
          ''DTSTART:20240610T000000Z'' @ CRLF @ ''DTEND:20240601T090000Z'' @ CRLF @
          ''SUMMARY:Job #9 #9 (Cut)'' @ CRLF @
          ''DESCRIPTION:Operation: Cut'' @ [CHR 0x5C, CHR ''n''] @ ''Job ID: J3'' @ CRLF @
          ''CATEGORIES:Cut'' @ CRLF @ ''END:VEVENT'')"
proof -
  have pick: "pickPrimaryOperation isoParse jobStartOnly [opEarlier] = Some opEarlier"
    by code_simp
  have window: "e_start eventInverted = Some ''2024-06-10T00:00:00Z''"
      "e_end eventInverted = Some ''2024-06-01T09:00:00Z''"
    by (simp_all add: eventInverted_def)
  have times: "dateOf isoParse (Some ''2024-06-10T00:00:00Z'') = Some 1717977600000"
      "dateOf isoParse (Some ''2024-06-01T09:00:00Z'') = Some 1717232400000"
    by code_simp+
  have inverted: "ltNum (Some 1717232400000) (Some 1717977600000)"
    by (simp add: ltNum_def)
  have pair: "pairOf [j_id jobStartOnly \<mapsto> Some (opEarlier, None)] jobStartOnly
                = Some (opEarlier, None)"
    by (simp add: pairOf_def)
  have kept: "keepJob isoParse None None [j_id jobStartOnly \<mapsto> Some (opEarlier, None)]
                jobStartOnly"
    unfolding keepJob_def pair by code_simp
  have allDay: "veventAllDay isoParse 0 ''10-949@bettis'' (Some ''2024-06-10T00:00:00Z'')
        (Some ''2024-06-01T09:00:00Z'') ''Job #9 #9 (Cut)'' []
        (''Operation: Cut'' @ [CHR 0x5C, CHR ''n''] @ ''Job ID: J3'') [''Cut''] =
     Inr (''BEGIN:VEVENT'' @ CRLF @ ''UID:10-949@bettis'' @ CRLF @
          ''DTSTAMP:19700101T000000Z'' @ CRLF @
          ''DTSTART;VALUE=DATE:20240610'' @ CRLF @ ''DTEND;VALUE=DATE:20240602'' @ CRLF @
          ''SUMMARY:Job #9 #9 (Cut)'' @ CRLF @
          ''DESCRIPTION:Operation: Cut'' @ [CHR 0x5C, CHR ''n''] @ ''Job ID: J3'' @ CRLF @
          ''CATEGORIES:Cut'' @ CRLF @ ''END:VEVENT'')"
    by code_simp
  have timed: "veventTimed isoParse 0 ''10-949@bettis'' (Some ''2024-06-10T00:00:00Z'')
        (Some ''2024-06-01T09:00:00Z'') ''Job #9 #9 (Cut)'' []
        (''Operation: Cut'' @ [CHR 0x5C, CHR ''n''] @ ''Job ID: J3'') [''Cut''] =
     ''BEGIN:VEVENT'' @ CRLF @ ''UID:10-949@bettis'' @ CRLF @
          ''DTSTAMP:19700101T000000Z'' @ CRLF @
          ''DTSTART:20240610T000000Z'' @ CRLF @ ''DTEND:20240601T090000Z'' @ CRLF @
          ''SUMMARY:Job #9 #9 (Cut)'' @ CRLF @
          ''DESCRIPTION:Operation: Cut'' @ [CHR 0x5C, CHR ''n''] @ ''Job ID: J3'' @ CRLF @
          ''CATEGORIES:Cut'' @ CRLF @ ''END:VEVENT''"
    by code_simp
  have r1: "renderEvent isoParse exampleDigest True 0 eventInverted =
      veventAllDay isoParse 0 ''10-949@bettis'' (Some ''2024-06-10T00:00:00Z'')
        (Some ''2024-06-01T09:00:00Z'') ''Job #9 #9 (Cut)'' []
        (''Operation: Cut'' @ [CHR 0x5C, CHR ''n''] @ ''Job ID: J3'') [''Cut'']"
    by (simp add: renderEvent_def eventInverted_def uidJ3_value orElse_def truthy_def)
  have r2: "renderEvent isoParse exampleDigest False 0 eventInverted =
      Inr (veventTimed isoParse 0 ''10-949@bettis'' (Some ''2024-06-10T00:00:00Z'')
        (Some ''2024-06-01T09:00:00Z'') ''Job #9 #9 (Cut)'' []
        (''Operation: Cut'' @ [CHR 0x5C, CHR ''n''] @ ''Job ID: J3'') [''Cut''])"
    by (simp add: renderEvent_def eventInverted_def uidJ3_value)
  show ?thesis
    unfolding window times r1 r2 allDay timed
    using pick mapJ3_inverted inverted kept by simp
qed

section \<open>Properties of the operation selector\<close>

text \<open>
  When every start parses, the insertion sort of the model is the stable sort by start
  time, the order that ECMAScript prescribes for a consistent comparator.
\<close>

lemma insertOp_insort:
  assumes "opStartMs P x \<noteq> None" and "\<forall>y \<in> set ys. opStartMs P y \<noteq> None"
  shows "insertOp P x ys = insort_key (\<lambda>o'. the (opStartMs P o')) x ys"
  using assms by (induction ys) (auto simp add: opCmpPos_def ltNum_def)

lemma sortOps_sort_key:
  assumes "\<forall>y \<in> set xs. opStartMs P y \<noteq> None"
  shows "sortOps P xs = sort_key (\<lambda>o'. the (opStartMs P o')) xs"
  using assms
proof (induction xs)
  case Nil
  show ?case by (simp add: sortOps_def)
next
  case (Cons x xs)
  have s: "sortOps P (x # xs) = insertOp P x (sortOps P xs)" by (simp add: sortOps_def)
  have ih: "sortOps P xs = sort_key (\<lambda>o'. the (opStartMs P o')) xs" using Cons by simp
  have "\<forall>y \<in> set (sort_key (\<lambda>o'. the (opStartMs P o')) xs). opStartMs P y \<noteq> None"
    using Cons.prems by simp
  moreover have "opStartMs P x \<noteq> None" using Cons.prems by simp
  ultimately show ?case unfolding s ih by (simp add: insertOp_insort)
qed

text \<open>
  The head of a stable sort is the first element, in the order of the input, among those
  with the least key.
\<close>

lemma hd_insort_key:
  "hd (insort_key f x ys) = (if ys = [] \<or> f x \<le> f (hd ys) then x else hd ys)"
  by (cases ys) auto

lemma find_first_least:
  fixes f :: "'a \<Rightarrow> int"
  shows "xs \<noteq> [] \<Longrightarrow> find (\<lambda>c. \<forall>y \<in> set xs. f c \<le> f y) xs = Some (hd (sort_key f xs))"
proof (induction xs)
  case Nil
  then show ?case by simp
next
  case (Cons x xs)
  show ?case
  proof (cases "xs = []")
    case True
    then show ?thesis by simp
  next
    case False
    let ?h = "hd (sort_key f xs)"
    have ih: "find (\<lambda>c. \<forall>y \<in> set xs. f c \<le> f y) xs = Some ?h" using Cons.IH False by simp
    then have hmin: "\<forall>y \<in> set xs. f ?h \<le> f y" and hin: "?h \<in> set xs"
      by (auto simp add: find_Some_iff)
    have ne: "sort_key f xs \<noteq> []" using False by (metis length_sort length_0_conv)
    have hd: "hd (sort_key f (x # xs)) = (if f x \<le> f ?h then x else ?h)"
      using ne by (simp add: hd_insort_key)
    show ?thesis
    proof (cases "f x \<le> f ?h")
      case True
      with hmin have "\<forall>y \<in> set (x # xs). f x \<le> f y" by fastforce
      with True hd show ?thesis by simp
    next
      case less: False
      with hin have nx: "\<not> (\<forall>y \<in> set (x # xs). f x \<le> f y)" by auto
      have "find (\<lambda>c. \<forall>y \<in> set (x # xs). f c \<le> f y) xs
              = find (\<lambda>c. \<forall>y \<in> set xs. f c \<le> f y) xs"
      proof (rule find_cong [OF refl])
        fix c assume "c \<in> set xs"
        show "(\<forall>y \<in> set (x # xs). f c \<le> f y) = (\<forall>y \<in> set xs. f c \<le> f y)"
        proof
          assume "\<forall>y \<in> set (x # xs). f c \<le> f y"
          then show "\<forall>y \<in> set xs. f c \<le> f y" by simp
        next
          assume a: "\<forall>y \<in> set xs. f c \<le> f y"
          with hin have "f c \<le> f ?h" by blast
          with less have "f c \<le> f x" by simp
          with a show "\<forall>y \<in> set (x # xs). f c \<le> f y" by simp
        qed
      qed
      moreover have "find (\<lambda>c. \<forall>y \<in> set (x # xs). f c \<le> f y) (x # xs)
              = find (\<lambda>c. \<forall>y \<in> set (x # xs). f c \<le> f y) xs"
        by (simp only: find.simps nx if_False)
      moreover have "hd (sort_key f (x # xs)) = ?h" using hd less by simp
      ultimately show ?thesis using ih by (simp only:)
    qed
  qed
qed

lemma find_filter: "find p (filter q xs) = find (\<lambda>x. q x \<and> p x) xs"
  by (induction xs) auto

lemma leNum_Some: "a \<noteq> None \<Longrightarrow> b \<noteq> None \<Longrightarrow> leNum a b = (the a \<le> the b)"
  by (auto simp add: leNum_def)

text \<open>
  Claim C10. When the job's start chain resolves to the epoch (time 0, also the value when
  the chain is empty) or to an unparseable date, \<open>jStart\<close> is falsy and the overlap search
  is not run. Provided the start of every operation that has one parses, the result is the
  first candidate in sorted order: the operation with the earliest start, the first such in
  the listing when several share it, and \<open>null\<close> when no operation has a start.
\<close>

theorem pickPrimaryOperation_no_job_start:
  assumes start: "jStartMs P j = Some 0 \<or> jStartMs P j = None"
      and parse: "\<forall>o' \<in> set ops. truthy (opStartOf (Some o')) \<longrightarrow> opStartMs P o' \<noteq> None"
  shows "pickPrimaryOperation P j ops =
           (case candidates P ops of [] \<Rightarrow> None | c # cs \<Rightarrow> Some c) \<and>
         pickPrimaryOperation P j ops =
           find (\<lambda>c. truthy (opStartOf (Some c)) \<and>
                     (\<forall>o' \<in> set ops. truthy (opStartOf (Some o')) \<longrightarrow>
                                     leNum (opStartMs P c) (opStartMs P o'))) ops"
proof -
  let ?q = "\<lambda>o'. truthy (opStartOf (Some o'))"
  let ?k = "\<lambda>o'. the (opStartMs P o')"
  let ?cand = "filter ?q ops"
  from start have "\<not> numTruthy (jStartMs P j)" by (auto simp add: numTruthy_def)
  moreover have "ops = [] \<Longrightarrow> candidates P ops = []" by (simp add: candidates_def sortOps_def)
  ultimately have pick: "pickPrimaryOperation P j ops =
           (case candidates P ops of [] \<Rightarrow> None | c # cs \<Rightarrow> Some c)"
    by (auto simp add: pickPrimaryOperation_def split: list.splits)
  have ok: "\<forall>y \<in> set ?cand. opStartMs P y \<noteq> None" using parse by simp
  have sorted: "candidates P ops = sort_key ?k ?cand"
    unfolding candidates_def using ok by (rule sortOps_sort_key)
  have cong: "find (\<lambda>c. ?q c \<and> (\<forall>y \<in> set ?cand. ?k c \<le> ?k y)) ops
        = find (\<lambda>c. ?q c \<and> (\<forall>o' \<in> set ops. ?q o' \<longrightarrow> leNum (opStartMs P c) (opStartMs P o'))) ops"
  proof (rule find_cong [OF refl])
    fix c assume c: "c \<in> set ops"
    show "(?q c \<and> (\<forall>y \<in> set ?cand. ?k c \<le> ?k y))
        = (?q c \<and> (\<forall>o' \<in> set ops. ?q o' \<longrightarrow> leNum (opStartMs P c) (opStartMs P o')))"
    proof (cases "?q c")
      case True
      with c parse have pc: "opStartMs P c \<noteq> None" by simp
      have "(\<forall>y \<in> set ?cand. ?k c \<le> ?k y)
          = (\<forall>o' \<in> set ops. ?q o' \<longrightarrow> leNum (opStartMs P c) (opStartMs P o'))"
        using parse pc by (auto simp add: leNum_Some)
      with True show ?thesis by simp
    next
      case False
      then show ?thesis by simp
    qed
  qed
  have "(case candidates P ops of [] \<Rightarrow> None | c # cs \<Rightarrow> Some c)
      = find (\<lambda>c. ?q c \<and> (\<forall>y \<in> set ?cand. ?k c \<le> ?k y)) ops"
  proof (cases "?cand = []")
    case True
    then have "find (\<lambda>c. ?q c \<and> (\<forall>y \<in> set ?cand. ?k c \<le> ?k y)) ops = None"
      by (auto simp add: find_None_iff filter_empty_conv)
    with True sorted show ?thesis by simp
  next
    case False
    then have ne: "sort_key ?k ?cand \<noteq> []" by (metis length_sort length_0_conv)
    have "find (\<lambda>c. \<forall>y \<in> set ?cand. ?k c \<le> ?k y) ?cand = Some (hd (sort_key ?k ?cand))"
      using False by (rule find_first_least)
    then have "find (\<lambda>c. ?q c \<and> (\<forall>y \<in> set ?cand. ?k c \<le> ?k y)) ops
        = Some (hd (sort_key ?k ?cand))"
      by (simp only: find_filter)
    with ne sorted show ?thesis by (cases "sort_key ?k ?cand") simp_all
  qed
  with pick cong show ?thesis by simp
qed

theorem pickPrimaryOperation_no_job_start_witness:
  "(jStartMs isoParse jobBadStart = Some 0 \<or> jStartMs isoParse jobBadStart = None) \<and>
   opStartOf (Some emptyOp) = None \<and>
   opStartMs isoParse opEarlier = Some 1717228800000 \<and>
   opStartMs isoParse opLater = Some 1718179200000 \<and>
   pickPrimaryOperation isoParse jobBadStart [opLater, emptyOp, opEarlier] = Some opEarlier"
proof -
  have a: "jStartMs isoParse jobBadStart = Some 0 \<or> jStartMs isoParse jobBadStart = None"
    by code_simp
  have p: "\<forall>o' \<in> set [opLater, emptyOp, opEarlier].
             truthy (opStartOf (Some o')) \<longrightarrow> opStartMs isoParse o' \<noteq> None"
    by code_simp
  have b: "candidates isoParse [opLater, emptyOp, opEarlier] = [opEarlier, opLater]"
    by code_simp
  have t: "opStartMs isoParse opEarlier = Some 1717228800000"
      "opStartMs isoParse opLater = Some 1718179200000"
    by code_simp+
  from pickPrimaryOperation_no_job_start [OF a p] b
  have "pickPrimaryOperation isoParse jobBadStart [opLater, emptyOp, opEarlier] = Some opEarlier"
    by simp
  moreover have "opStartOf (Some emptyOp) = None" by code_simp
  ultimately show ?thesis using a t by blast
qed

section \<open>Properties of the operation cache\<close>

lemma mapSet_keys: "fst ` set (mapSet k v m) = insert k (fst ` set m)"
  by (induction m) auto

lemma mapSet_distinct: "distinct (map fst m) \<Longrightarrow> distinct (map fst (mapSet k v m))"
proof (induction m)
  case Nil
  then show ?case by simp
next
  case (Cons e m)
  have "fst ` set (mapSet k v m) = insert k (fst ` set m)" by (rule mapSet_keys)
  with Cons show ?case by auto
qed

lemma mapSet_length:
  "length (mapSet k v m) = (if k \<in> fst ` set m then length m else Suc (length m))"
  by (induction m) auto

lemma mapDelete_distinct: "distinct (map fst m) \<Longrightarrow> distinct (map fst (mapDelete k m))"
  by (simp add: mapDelete_def distinct_map_filter)

lemma mapDelete_length_le: "length (mapDelete k m) \<le> length m"
  by (simp add: mapDelete_def)

lemma mapDelete_length:
  "distinct (map fst m) \<Longrightarrow> k \<in> fst ` set m \<Longrightarrow> Suc (length (mapDelete k m)) = length m"
proof (induction m)
  case Nil
  then show ?case by simp
next
  case (Cons e m)
  show ?case
  proof (cases "fst e = k")
    case True
    with Cons.prems have "k \<notin> fst ` set m" by auto
    then have "filter (\<lambda>e. fst e \<noteq> k) m = m" by (auto simp add: filter_id_conv)
    with True show ?thesis by (simp add: mapDelete_def)
  next
    case False
    with Cons show ?thesis by (auto simp add: mapDelete_def)
  qed
qed

lemma oldest_in: "m \<noteq> [] \<Longrightarrow> hd (sort_key f m) \<in> set m"
  by (metis hd_in_set set_sort length_sort length_0_conv)

lemma oldest_min:
  fixes f :: "'a \<Rightarrow> int"
  assumes "m \<noteq> []" "e \<in> set m"
  shows "f (hd (sort_key f m)) \<le> f e"
proof -
  have s: "sorted (map f (sort_key f m))" by simp
  from assms(1) have ne: "sort_key f m \<noteq> []" by (metis length_sort length_0_conv)
  then obtain x xs where x: "sort_key f m = x # xs" by (cases "sort_key f m") auto
  from assms have "e \<in> set (sort_key f m)" by simp
  with s x show ?thesis by auto
qed

lemma cachePutOps_inv: "cacheInv m \<Longrightarrow> cacheInv (cachePutOps now k d m)"
proof -
  assume inv: "cacheInv m"
  let ?m = "mapSet k \<lparr> at = now, data = d \<rparr> m"
  have d: "distinct (map fst ?m)" using inv by (simp add: cacheInv_def mapSet_distinct)
  have l: "length ?m \<le> 501" using inv by (simp add: cacheInv_def mapSet_length)
  show ?thesis
  proof (cases "length ?m > 500")
    case True
    then have ne: "?m \<noteq> []" by auto
    have "oldestKey ?m \<in> fst ` set ?m" unfolding oldestKey_def using oldest_in [OF ne] by blast
    from mapDelete_length [OF d this] l have "length (mapDelete (oldestKey ?m) ?m) \<le> 500" by simp
    with True d show ?thesis by (simp add: cachePutOps_def cacheInv_def Let_def mapDelete_distinct)
  next
    case False
    with d show ?thesis by (simp add: cachePutOps_def cacheInv_def Let_def)
  qed
qed

lemma cacheGetOps_inv: "cacheInv m \<Longrightarrow> cacheInv (snd (cacheGetOps ttl now k m))"
  using mapDelete_length_le [of k m]
  by (auto simp add: cacheGetOps_def cacheInv_def mapDelete_distinct split: option.splits)

lemma runCalls_inv_aux: "cacheInv m \<Longrightarrow> cacheInv (foldl (\<lambda>m c. runCall c m) m cs)"
proof (induction cs arbitrary: m)
  case Nil
  then show ?case by simp
next
  case (Cons c cs)
  have "cacheInv (runCall c m)"
    using Cons.prems by (cases c) (simp_all add: cachePutOps_inv cacheGetOps_inv)
  then show ?case using Cons.IH by simp
qed

lemma runCalls_inv: "cacheInv (runCalls cs)"
  unfolding runCalls_def by (rule runCalls_inv_aux) (simp add: cacheInv_def)

text \<open>
  Claim C9. In every state the cache can reach from its empty start, a call of
  \<open>cachePutOps\<close> leaves at most 500 entries. When the insertion makes 501 entries, exactly
  one entry is removed, and it is an entry whose stored timestamp \<open>at\<close> is the smallest;
  otherwise nothing is removed.
\<close>

theorem cachePutOps_cap:
  "length (cachePutOps now k d (runCalls cs)) \<le> 500 \<and>
   (if length (mapSet k \<lparr> at = now, data = d \<rparr> (runCalls cs)) > 500
    then \<exists>e \<in> set (mapSet k \<lparr> at = now, data = d \<rparr> (runCalls cs)).
           (\<forall>e' \<in> set (mapSet k \<lparr> at = now, data = d \<rparr> (runCalls cs)).
              at (snd e) \<le> at (snd e')) \<and>
           cachePutOps now k d (runCalls cs)
             = mapDelete (fst e) (mapSet k \<lparr> at = now, data = d \<rparr> (runCalls cs)) \<and>
           Suc (length (cachePutOps now k d (runCalls cs)))
             = length (mapSet k \<lparr> at = now, data = d \<rparr> (runCalls cs))
    else cachePutOps now k d (runCalls cs) = mapSet k \<lparr> at = now, data = d \<rparr> (runCalls cs))"
proof -
  let ?m = "mapSet k \<lparr> at = now, data = d \<rparr> (runCalls cs)"
  have inv: "cacheInv (runCalls cs)" by (rule runCalls_inv)
  from cachePutOps_inv [OF inv] have a: "length (cachePutOps now k d (runCalls cs)) \<le> 500"
    by (simp add: cacheInv_def)
  have d: "distinct (map fst ?m)" using inv by (simp add: cacheInv_def mapSet_distinct)
  show ?thesis
  proof (cases "length ?m > 500")
    case True
    then have ne: "?m \<noteq> []" by auto
    let ?e = "hd (sort_key (\<lambda>e. at (snd e)) ?m)"
    have e_in: "?e \<in> set ?m" by (rule oldest_in [OF ne])
    have e_min: "\<forall>e' \<in> set ?m. at (snd ?e) \<le> at (snd e')"
      using oldest_min [OF ne, of _ "\<lambda>e. at (snd e)"] by blast
    have res: "cachePutOps now k d (runCalls cs) = mapDelete (fst ?e) ?m"
      using True by (simp add: cachePutOps_def Let_def oldestKey_def)
    have "fst ?e \<in> fst ` set ?m" using e_in by blast
    from mapDelete_length [OF d this] res
    have "Suc (length (cachePutOps now k d (runCalls cs))) = length ?m" by simp
    with a True e_in e_min res show ?thesis by auto
  next
    case False
    then have "cachePutOps now k d (runCalls cs) = ?m"
      by (simp add: cachePutOps_def Let_def)
    with a False show ?thesis by simp
  qed
qed

lemma mapSet_fresh: "k \<notin> fst ` set m \<Longrightarrow> mapSet k v m = m @ [(k, v)]"
  by (induction m) auto

lemma runCalls_snoc: "runCalls (cs @ [c]) = runCall c (runCalls cs)"
  by (simp add: runCalls_def)

lemma filled_snoc: "filled 0 (Suc n) = filled 0 n @ [(n, \<lparr> at = int n, data = () \<rparr>)]"
  by (simp add: filled_def)

lemma filled_keys: "fst ` set (filled a b) = {a..<b}"
  by (auto simp add: filled_def image_iff)

lemma runCalls_fill: "n \<le> 500 \<Longrightarrow> runCalls (fillCalls n) = filled 0 n"
proof (induction n)
  case 0
  show ?case by (simp add: fillCalls_def filled_def runCalls_def)
next
  case (Suc n)
  then have ih: "runCalls (fillCalls n) = filled 0 n" by simp
  have "fillCalls (Suc n) = fillCalls n @ [PutOps (int n) n ()]" by (simp add: fillCalls_def)
  then have "runCalls (fillCalls (Suc n)) = cachePutOps (int n) n () (filled 0 n)"
    by (simp add: runCalls_snoc ih)
  moreover have "n \<notin> fst ` set (filled 0 n)" by (simp add: filled_keys)
  then have "mapSet n \<lparr> at = int n, data = () \<rparr> (filled 0 n) = filled 0 (Suc n)"
    by (simp add: mapSet_fresh filled_snoc)
  moreover have "length (filled 0 (Suc n)) \<le> 500" using Suc.prems by (simp add: filled_def)
  ultimately show ?case by (simp add: cachePutOps_def Let_def)
qed

lemma filled_length: "length (filled a b) = b - a"
  by (simp add: filled_def)

lemma filled_Cons: "a < b \<Longrightarrow> filled a b = (a, \<lparr> at = int a, data = () \<rparr>) # filled (Suc a) b"
  by (simp add: filled_def upt_conv_Cons)

lemma filled_sorted: "sorted (map (\<lambda>e. at (snd e)) (filled a b))"
proof -
  have "map (\<lambda>e. at (snd e)) (filled a b) = map int [a..<b]"
    by (simp add: filled_def comp_def)
  moreover have "sorted (map int [a..<b])"
    by (simp add: sorted_map sorted_wrt_map sorted_wrt_mono_rel [OF _ sorted_upt])
  ultimately show ?thesis by simp
qed

lemma mapSet_filled:
  "mapSet n \<lparr> at = int n, data = () \<rparr> (filled 0 n) = filled 0 (Suc n)"
proof -
  have "n \<notin> fst ` set (filled 0 n)" by (simp add: filled_keys)
  then show ?thesis using filled_snoc [of n] by (simp add: mapSet_fresh)
qed

lemma put_after_fill:
  "mapSet 500 \<lparr> at = 500, data = () \<rparr> (runCalls (fillCalls 500)) = filled 0 (Suc 500)"
  using mapSet_filled [of 500] by (simp add: runCalls_fill)

theorem cachePutOps_cap_witness:
  "length (mapSet 500 \<lparr> at = 500, data = () \<rparr> (runCalls (fillCalls 500))) = 501 \<and>
   length (cachePutOps 500 500 () (runCalls (fillCalls 500))) = 500"
proof -
  have l: "length (mapSet 500 \<lparr> at = 500, data = () \<rparr> (runCalls (fillCalls 500))) = 501"
    by (simp only: put_after_fill filled_length)
  from cachePutOps_cap [of 500 500 "()" "fillCalls 500"] l
  show ?thesis by auto
qed

lemma cachePutOps_evicts_first:
  "cachePutOps 500 500 () (runCalls (fillCalls 500)) = filled 1 (Suc 500)"
proof -
  let ?m = "filled 0 (Suc 500)"
  have "sort_key (\<lambda>e. at (snd e)) ?m = ?m"
    by (rule sort_key_id_if_sorted) (rule filled_sorted)
  moreover have c: "?m = (0, \<lparr> at = int 0, data = () \<rparr>) # filled (Suc 0) (Suc 500)"
    by (rule filled_Cons) simp
  ultimately have k: "oldestKey ?m = 0" by (simp add: oldestKey_def)
  have "0 \<notin> fst ` set (filled (Suc 0) (Suc 500))" by (simp add: filled_keys)
  then have "filter (\<lambda>e. fst e \<noteq> 0) (filled (Suc 0) (Suc 500)) = filled (Suc 0) (Suc 500)"
    by (force simp add: filter_id_conv)
  with c have d: "mapDelete 0 ?m = filled 1 (Suc 500)" by (simp add: mapDelete_def)
  have "length ?m > 500" by (simp add: filled_length)
  with k d show ?thesis
    by (simp only: cachePutOps_def Let_def put_after_fill if_True)
qed

section \<open>Properties of the calendar serializer\<close>

lemma mapJ1: "mapJobToEvent isoParse jobJ1 None None = Inr eventJ1"
  by code_simp

lemma stampsJ1:
  "toUTC (isoParse ''2024-06-01T10:00:00Z'') = ''20240601T100000Z''"
  "toUTC (isoParse ''2024-06-01T11:00:00Z'') = ''20240601T110000Z''"
  by code_simp+

lemma escJ1:
  "icsEscape ''Job #7 #7'' = ''Job #7 #7''"
  "icsEscape descJ1 = descJ1"
  "icsEscape ''scheduled'' = ''scheduled''"
  by code_simp+

text \<open>
  Claim C3, as the code has it. The scenario job, without a name and without operations,
  rendered as a timed event: the summary is \<open>Job #7 #7\<close> (the title \<open>Job #7\<close> and then
  the number segment \<open>#7\<close>), with \<open>DTSTART:20240601T100000Z\<close> and
  \<open>DTEND:20240601T110000Z\<close>.
\<close>

theorem scenario_timed:
  "mapJobToEvent isoParse jobJ1 None None = Inr eventJ1 \<and>
   e_summary eventJ1 = ''Job #7 #7'' \<and>
   veventTimed isoParse now uid (e_start eventJ1) (e_end eventJ1) (e_summary eventJ1)
       (e_location eventJ1) (e_description eventJ1) (e_categories eventJ1) =
     ''BEGIN:VEVENT'' @ CRLF @ ''UID:'' @ uid @ CRLF @ ''DTSTAMP:'' @ toUTC (Some now) @ CRLF @
     ''DTSTART:20240601T100000Z'' @ CRLF @ ''DTEND:20240601T110000Z'' @ CRLF @
     ''SUMMARY:Job #7 #7'' @ CRLF @ ''DESCRIPTION:'' @ descJ1 @ CRLF @
     ''CATEGORIES:scheduled'' @ CRLF @ ''END:VEVENT''"
proof -
  have d: "descJ1 \<noteq> []" by (simp add: descJ1_def)
  have "veventTimed isoParse now uid (e_start eventJ1) (e_end eventJ1) (e_summary eventJ1)
       (e_location eventJ1) (e_description eventJ1) (e_categories eventJ1) =
     ''BEGIN:VEVENT'' @ CRLF @ ''UID:'' @ uid @ CRLF @ ''DTSTAMP:'' @ toUTC (Some now) @ CRLF @
     ''DTSTART:20240601T100000Z'' @ CRLF @ ''DTEND:20240601T110000Z'' @ CRLF @
     ''SUMMARY:Job #7 #7'' @ CRLF @ ''DESCRIPTION:'' @ descJ1 @ CRLF @
     ''CATEGORIES:scheduled'' @ CRLF @ ''END:VEVENT''"
    using d
    by (simp add: veventTimed_def veventTail_def eventJ1_def filterBoolean_def dateOf_def
        orElse_def truthy_def stampsJ1 escJ1)
  then show ?thesis by (simp add: mapJ1) (simp add: eventJ1_def)
qed


text \<open>Claim C3 as stated fails on the summary, which is not \<open>Job #7\<close>.\<close>

theorem scenario_timed_counterexample:
  "map_sum id e_summary (mapJobToEvent isoParse jobJ1 None None) = Inr ''Job #7 #7'' \<and>
   map_sum id e_summary (mapJobToEvent isoParse jobJ1 None None) \<noteq> Inr ''Job #7''"
  by code_simp

section \<open>Properties of line folding\<close>

lemma unitBytes_le: "unitBytes c \<le> 3"
  by (simp add: unitBytes_def)

lemma byteLength_le: "byteLength xs \<le> 3 * length xs"
proof (induction xs rule: byteLength.induct)
  case 1
  show ?case by simp
next
  case (2 c)
  show ?case using unitBytes_le [of c] by simp
next
  case (3 c d ds)
  show ?case
  proof (cases "isHigh c \<and> isLow d")
    case True
    with 3 show ?thesis by simp
  next
    case False
    with 3 unitBytes_le [of c] show ?thesis by auto
  qed
qed

lemma cutLoop_ge: "n \<le> 75 \<Longrightarrow> min n 25 \<le> cutLoop xs n"
proof (induction xs n rule: cutLoop.induct)
  case (1 xs n)
  show ?case
  proof (cases "n > 0 \<and> byteLength (take n xs) > 75")
    case True
    have "byteLength (take n xs) \<le> 3 * n" using byteLength_le [of "take n xs"] by simp
    with True have n: "n > 25" by simp
    from True have "cutLoop xs n = cutLoop xs (n - 1)" by (subst cutLoop.simps) simp
    moreover from 1 True n have "min (n - 1) 25 \<le> cutLoop xs (n - 1)" by simp
    ultimately show ?thesis using n by simp
  next
    case False
    then have "cutLoop xs n = n" by (subst cutLoop.simps) auto
    then show ?thesis by simp
  qed
qed

lemma cutLoop_bound: "byteLength (take (cutLoop xs n) xs) \<le> 75"
proof (induction xs n rule: cutLoop.induct)
  case (1 xs n)
  show ?case
  proof (cases "n > 0 \<and> byteLength (take n xs) > 75")
    case True
    then have "cutLoop xs n = cutLoop xs (n - 1)" by (subst cutLoop.simps) simp
    with 1 True show ?thesis by simp
  next
    case False
    then have "cutLoop xs n = n" by (subst cutLoop.simps) auto
    with False show ?thesis by (cases "n = 0") auto
  qed
qed

lemma foldLine_long:
  "byteLength cur > 75 \<Longrightarrow>
     foldLine cur = take (cutLoop cur 75) cur # foldLine (0x20 # drop (cutLoop cur 75) cur)"
  by (subst foldLine.simps) (simp add: Let_def)

lemma foldLine_short: "\<not> byteLength cur > 75 \<Longrightarrow> foldLine cur = [cur]"
  by (subst foldLine.simps) simp

lemma foldLine_bound: "p \<in> set (foldLine cur) \<Longrightarrow> byteLength p \<le> 75"
proof (induction cur arbitrary: p rule: foldLine.induct)
  case (1 cur)
  show ?case
  proof (cases "byteLength cur > 75")
    case True
    from 1(2) foldLine_long [OF True]
    have "p = take (cutLoop cur 75) cur \<or> p \<in> set (foldLine (0x20 # drop (cutLoop cur 75) cur))"
      by simp
    then show ?thesis
    proof
      assume "p = take (cutLoop cur 75) cur"
      then show ?thesis using cutLoop_bound [of cur 75] by simp
    next
      assume "p \<in> set (foldLine (0x20 # drop (cutLoop cur 75) cur))"
      with 1(1) [OF True refl] show ?thesis by simp
    qed
  next
    case False
    with 1(2) foldLine_short [OF False] show ?thesis by simp
  qed
qed

lemma foldLine_pieces:
  "\<exists>p ps. foldLine cur = p # ps \<and> (\<forall>q \<in> set ps. \<exists>r. q = 0x20 # r) \<and>
          p @ concat (map tl ps) = cur \<and> (p = [] \<longrightarrow> ps = [])"
proof (induction cur rule: foldLine.induct)
  case (1 cur)
  show ?case
  proof (cases "byteLength cur > 75")
    case True
    let ?k = "cutLoop cur 75"
    from 1 [OF True refl] obtain p' ps' where
      ih: "foldLine (0x20 # drop ?k cur) = p' # ps'" "\<forall>q \<in> set ps'. \<exists>r. q = 0x20 # r"
          "p' @ concat (map tl ps') = 0x20 # drop ?k cur" "p' = [] \<longrightarrow> ps' = []"
      by blast
    from ih(3,4) have "p' \<noteq> []" by auto
    with ih(3) obtain r where r: "p' = 0x20 # r" by (cases p') auto
    with ih(3) have rest: "r @ concat (map tl ps') = drop ?k cur" by simp
    have "25 \<le> ?k" using cutLoop_ge [of 75 cur] by simp
    moreover from True byteLength_le [of cur] have "25 < length cur" by simp
    ultimately have ne: "take ?k cur \<noteq> []" by auto
    have "take ?k cur @ concat (map tl (p' # ps')) = cur"
      using r rest by (simp add: append_take_drop_id)
    with ih(1,2) r ne foldLine_long [OF True] show ?thesis by auto
  next
    case False
    then show ?thesis by (simp add: foldLine_short)
  qed
qed

lemma hasCRLF_append: "hasCRLF xs \<or> hasCRLF ys \<Longrightarrow> hasCRLF (xs @ ys)"
proof (induction xs rule: hasCRLF.induct)
  case (1 a b xs)
  then show ?case by auto
next
  case 2
  then show ?case by simp
next
  case (3 v)
  then show ?case by (cases ys) auto
qed

lemma splitCRLF_nonempty: "splitCRLF xs \<noteq> []"
  by (induction xs rule: splitCRLF.induct) (auto split: list.splits)



lemma split_no_CRLF: "l \<in> set (splitCRLF xs) \<Longrightarrow> \<not> hasCRLF l"
proof (induction xs arbitrary: l rule: splitCRLF.induct)
  case (1 a b xs)
  show ?case
  proof (cases "a = 0x0D \<and> b = 0x0A")
    case True
    with 1 show ?thesis by auto
  next
    case False
    from splitCRLF_nonempty [of "b # xs"] obtain m ms where m: "splitCRLF (b # xs) = m # ms"
      by (cases "splitCRLF (b # xs)") auto
    with False 1(3) have "l = a # m \<or> l \<in> set ms" by auto
    then show ?thesis
    proof
      assume l: "l = a # m"
      have nm: "\<not> hasCRLF m" using 1(2) [OF False, of m] m by simp
      have "m = [] \<or> hd m = b"
      proof (cases xs)
        case Nil
        with m show ?thesis by auto
      next
        case (Cons c cs)
        with m show ?thesis by (auto split: if_splits list.splits)
      qed
      with l nm False show ?thesis by (cases m) auto
    next
      assume "l \<in> set ms"
      with 1(2) [OF False, of l] m show ?thesis by simp
    qed
  qed
next
  case 2
  then show ?case by simp
next
  case (3 v)
  then show ?case by simp
qed

lemma split_line_only: "\<not> hasCRLF l \<Longrightarrow> splitCRLF l = [l]"
proof (induction l rule: hasCRLF.induct)
  case (1 a b xs)
  then show ?case by auto
next
  case 2
  show ?case by simp
next
  case (3 v)
  show ?case by simp
qed

lemma split_line_then: "\<not> hasCRLF l \<Longrightarrow> splitCRLF (l @ 0x0D # 0x0A # rest) = l # splitCRLF rest"
proof (induction l rule: hasCRLF.induct)
  case (1 a b xs)
  then show ?case by auto
next
  case 2
  show ?case by simp
next
  case (3 v)
  show ?case by simp
qed

lemma split_join: "ls \<noteq> [] \<Longrightarrow> \<forall>l \<in> set ls. \<not> hasCRLF l \<Longrightarrow> splitCRLF (joinCRLF ls) = ls"
proof (induction ls rule: joinCRLF.induct)
  case 1
  then show ?case by simp
next
  case (2 l)
  then show ?case by (simp add: split_line_only)
next
  case (3 l m ls)
  then show ?case by (simp add: split_line_then)
qed







lemma no_CRLF_parts: "\<not> hasCRLF (xs @ ys) \<Longrightarrow> \<not> hasCRLF xs \<and> \<not> hasCRLF ys"
  using hasCRLF_append [of xs ys] by blast








lemma no_CRLF_space: "\<not> hasCRLF xs \<Longrightarrow> \<not> hasCRLF (0x20 # xs)"
  by (cases xs) simp_all

lemma foldLine_no_CRLF: "\<not> hasCRLF cur \<Longrightarrow> p \<in> set (foldLine cur) \<Longrightarrow> \<not> hasCRLF p"
proof (induction cur arbitrary: p rule: foldLine.induct)
  case (1 cur)
  show ?case
  proof (cases "byteLength cur > 75")
    case True
    let ?k = "cutLoop cur 75"
    from 1(2) have parts: "\<not> hasCRLF (take ?k cur) \<and> \<not> hasCRLF (drop ?k cur)"
      using no_CRLF_parts [of "take ?k cur" "drop ?k cur"] by simp
    from 1(3) foldLine_long [OF True]
    have "p = take ?k cur \<or> p \<in> set (foldLine (0x20 # drop ?k cur))" by simp
    then show ?thesis
    proof
      assume "p = take ?k cur"
      with parts show ?thesis by simp
    next
      assume "p \<in> set (foldLine (0x20 # drop ?k cur))"
      moreover from parts have "\<not> hasCRLF (0x20 # drop ?k cur)" by (simp add: no_CRLF_space)
      ultimately show ?thesis using 1(1) [OF True refl] by simp
    qed
  next
    case False
    with 1(2,3) foldLine_short [OF False] show ?thesis by simp
  qed
qed

text \<open>The lines of the folded document are exactly the pieces of the lines of the input.\<close>

lemma foldLines_lines: "splitCRLF (foldLines t) = concat (map foldLine (splitCRLF t))"
proof -
  from splitCRLF_nonempty [of t] obtain l ls where s: "splitCRLF t = l # ls"
    by (cases "splitCRLF t") auto
  from foldLine_pieces [of l] obtain p ps where f: "foldLine l = p # ps" by blast
  have ne: "concat (map foldLine (splitCRLF t)) \<noteq> []" by (simp add: s f)
  have "\<forall>q \<in> set (concat (map foldLine (splitCRLF t))). \<not> hasCRLF q"
    using split_no_CRLF [of _ t] foldLine_no_CRLF by auto
  with ne show ?thesis unfolding foldLines_def by (rule split_join)
qed

text \<open>
  The parts of claim C5 that hold for every input: no line of the folded document is
  longer than 75 bytes in UTF-8, every piece after the first of a line starts with the one
  added space (\<open>foldLine_pieces\<close>), and unfolding the folded text gives what unfolding the
  input gives, which is the input itself when it contains no line break followed by a
  space.
\<close>

lemma foldLines_line_bound: "l \<in> set (splitCRLF (foldLines t)) \<Longrightarrow> byteLength l \<le> 75"
  by (auto simp add: foldLines_lines foldLine_bound)


text \<open>The byte count that the folding uses is the length of the UTF-8 encoding.\<close>

lemma utf8Unit_length: "length (utf8Unit c) = unitBytes c"
proof -
  have lt: "unat c < 65536" using unsigned_less [of c] by simp
  show ?thesis
  proof (cases "isHigh c \<or> isLow c")
    case True
    then have "\<not> c < 0x80" "\<not> c < 0x800"
      by (auto simp add: isHigh_def isLow_def word_less_nat_alt word_le_nat_alt)
    with True show ?thesis by (simp add: utf8Unit_def utf8CodePoint_def unitBytes_def)
  next
    case False
    with lt show ?thesis
      by (simp add: utf8Unit_def utf8CodePoint_def unitBytes_def word_less_nat_alt)
  qed
qed

lemma byteLength_utf8: "length (utf8 s) = byteLength s"
proof (induction s rule: byteLength.induct)
  case 1
  show ?case by simp
next
  case (2 c)
  show ?case by (simp add: utf8Unit_length)
next
  case (3 c d ds)
  show ?case
  proof (cases "isHigh c \<and> isLow d")
    case True
    with 3 show ?thesis by (simp add: utf8CodePoint_def)
  next
    case False
    with 3 show ?thesis by (auto simp add: utf8Unit_length)
  qed
qed


lemma ascii_unit: "c < 0x80 \<Longrightarrow> \<not> isHigh c \<and> \<not> isLow c \<and> unitBytes c = 1"
  by (auto simp add: isHigh_def isLow_def unitBytes_def word_less_nat_alt word_le_nat_alt)

lemma byteLength_ascii:
  "\<forall>c \<in> set xs. c < 0x80 \<Longrightarrow> byteLength (xs @ ys) = length xs + byteLength ys"
proof (induction xs)
  case Nil
  show ?case by simp
next
  case (Cons a xs)
  then have a: "\<not> isHigh a" "unitBytes a = 1" using ascii_unit [of a] by auto
  from Cons have ih: "byteLength (xs @ ys) = length xs + byteLength ys" by simp
  show ?case
  proof (cases "xs @ ys")
    case Nil
    with a show ?thesis by simp
  next
    case (Cons d ds)
    then have "byteLength (a # xs @ ys) = unitBytes a + byteLength (xs @ ys)" using a by simp
    with ih a show ?thesis by simp
  qed
qed

lemma utf8_ascii:
  "\<forall>c \<in> set xs. c < 0x80 \<Longrightarrow> drop (length xs) (utf8 (xs @ ys)) = utf8 ys"
proof (induction xs)
  case Nil
  show ?case by simp
next
  case (Cons a xs)
  then have a: "\<not> isHigh a" "\<not> isLow a" "a < 0x80" using ascii_unit [of a] by auto
  from Cons have ih: "drop (length xs) (utf8 (xs @ ys)) = utf8 ys" by simp
  from a(3) have "unat a < 128" by (simp add: word_less_nat_alt)
  with a have u: "utf8Unit a = [of_nat (unat a)]" by (simp add: utf8Unit_def utf8CodePoint_def)
  have "utf8 (a # xs @ ys) = utf8Unit a @ utf8 (xs @ ys)"
    using a by (cases "xs @ ys") simp_all
  with u ih show ?case by simp
qed

lemma no_CR_no_CRLF: "0x0D \<notin> set xs \<Longrightarrow> \<not> hasCRLF xs"
  by (induction xs rule: hasCRLF.induct) auto

lemma asciiPart_facts:
  "length asciiPart = 72" "\<forall>c \<in> set asciiPart. c < 0x80" "0x0D \<notin> set asciiPart"
  by (simp_all add: asciiPart_def)

lemma emoji_cut: "cutLoop emojiLine 75 = 73"
proof -
  have t75: "take 75 emojiLine = asciiPart @ [0xD83D, 0xDE00, 0x62]"
    and t74: "take 74 emojiLine = asciiPart @ [0xD83D, 0xDE00]"
    and t73: "take 73 emojiLine = asciiPart @ [0xD83D]"
    by (simp_all add: emojiLine_def asciiPart_facts)
  have b75: "byteLength (take 75 emojiLine) = 77"
    and b74: "byteLength (take 74 emojiLine) = 76"
    and b73: "byteLength (take 73 emojiLine) = 75"
    unfolding t75 t74 t73
    by (simp_all add: byteLength_ascii asciiPart_facts isHigh_def isLow_def unitBytes_def)
  have "cutLoop emojiLine 75 = cutLoop emojiLine 74" by (subst cutLoop.simps) (simp add: b75)
  also have "\<dots> = cutLoop emojiLine 73" by (subst cutLoop.simps) (simp add: b74)
  also have "\<dots> = 73" by (subst cutLoop.simps) (simp add: b73)
  finally show ?thesis .
qed

lemma emoji_fold:
  "foldLines emojiLine = asciiPart @ [0xD83D, 0x0D, 0x0A, 0x20, 0xDE00, 0x62, 0x62, 0x62]"
proof -
  have bl: "byteLength emojiLine = 79"
    by (simp add: emojiLine_def byteLength_ascii asciiPart_facts isHigh_def isLow_def
        unitBytes_def)
  have rest: "0x20 # drop 73 emojiLine = [0x20, 0xDE00, 0x62, 0x62, 0x62]"
    by (simp add: emojiLine_def asciiPart_facts)
  have "byteLength [0x20, 0xDE00, 0x62, 0x62, 0x62 :: 16 word] = 7"
    by (simp add: isHigh_def isLow_def unitBytes_def)
  then have short: "foldLine [0x20, 0xDE00, 0x62, 0x62, 0x62] = [[0x20, 0xDE00, 0x62, 0x62, 0x62]]"
    by (simp add: foldLine_short)
  have "foldLine emojiLine = [take 73 emojiLine, [0x20, 0xDE00, 0x62, 0x62, 0x62]]"
    using foldLine_long [of emojiLine] bl by (simp add: emoji_cut rest short)
  moreover have "take 73 emojiLine = asciiPart @ [0xD83D]"
    by (simp add: emojiLine_def asciiPart_facts)
  moreover have "\<not> hasCRLF emojiLine"
    by (rule no_CR_no_CRLF) (simp add: emojiLine_def asciiPart_facts)
  then have "splitCRLF emojiLine = [emojiLine]" by (rule split_line_only)
  ultimately show ?thesis by (simp add: foldLines_def)
qed

text \<open>
  Claim C5 at the example line. The cut falls at code unit 73, between the two surrogates
  of U+1F600: the first output line ends in the unpaired high surrogate, the continuation
  line is a space and the unpaired low surrogate. In UTF-8 the four bytes F0 9F 98 80 of
  the input have become EF BF BD on either side of the break, so the multi-byte sequence
  is not kept and the bytes of the input cannot be rebuilt by unfolding.
\<close>

theorem foldLines_splits_surrogate_pair:
  "byteLength emojiLine = 79 \<and>
   drop 72 (utf8 emojiLine) = [0xF0, 0x9F, 0x98, 0x80, 0x62, 0x62, 0x62] \<and>
   drop 72 (foldLines emojiLine) = [0xD83D, 0x0D, 0x0A, 0x20, 0xDE00, 0x62, 0x62, 0x62] \<and>
   drop 72 (utf8 (foldLines emojiLine))
     = [0xEF, 0xBF, 0xBD, 0x0D, 0x0A, 0x20, 0xEF, 0xBF, 0xBD, 0x62, 0x62, 0x62]"
proof -
  have bl: "byteLength emojiLine = 79"
    by (simp add: emojiLine_def byteLength_ascii asciiPart_facts isHigh_def isLow_def
        unitBytes_def)
  have u1: "drop 72 (utf8 emojiLine) = utf8 [0xD83D, 0xDE00, 0x62, 0x62, 0x62]"
    using utf8_ascii [of asciiPart "[0xD83D, 0xDE00, 0x62, 0x62, 0x62]"]
    by (simp add: emojiLine_def asciiPart_facts)
  have u2: "drop 72 (utf8 (foldLines emojiLine))
              = utf8 [0xD83D, 0x0D, 0x0A, 0x20, 0xDE00, 0x62, 0x62, 0x62]"
    using utf8_ascii [of asciiPart "[0xD83D, 0x0D, 0x0A, 0x20, 0xDE00, 0x62, 0x62, 0x62]"]
    by (simp add: emoji_fold asciiPart_facts)
  have e1: "utf8 [0xD83D, 0xDE00, 0x62, 0x62, 0x62] = [0xF0, 0x9F, 0x98, 0x80, 0x62, 0x62, 0x62]"
    by (simp add: isHigh_def isLow_def utf8Unit_def utf8CodePoint_def)
  have e2: "utf8 [0xD83D, 0x0D, 0x0A, 0x20, 0xDE00, 0x62, 0x62, 0x62]
              = [0xEF, 0xBF, 0xBD, 0x0D, 0x0A, 0x20, 0xEF, 0xBF, 0xBD, 0x62, 0x62, 0x62]"
    by (simp add: isHigh_def isLow_def utf8Unit_def utf8CodePoint_def)
  have f: "drop 72 (foldLines emojiLine) = [0xD83D, 0x0D, 0x0A, 0x20, 0xDE00, 0x62, 0x62, 0x62]"
    by (simp add: emoji_fold asciiPart_facts)
  from u1 e1 have g1: "drop 72 (utf8 emojiLine) = [0xF0, 0x9F, 0x98, 0x80, 0x62, 0x62, 0x62]"
    by (rule trans)
  from u2 e2 have g2: "drop 72 (utf8 (foldLines emojiLine))
      = [0xEF, 0xBF, 0xBD, 0x0D, 0x0A, 0x20, 0xEF, 0xBF, 0xBD, 0x62, 0x62, 0x62]"
    by (rule trans)
  from bl g1 f g2 show ?thesis by blast
qed


section \<open>Properties of the feed endpoint\<close>

lemma orElse_truthy: "truthy (orElse a b) = (truthy a \<or> truthy b)"
  by (simp add: orElse_def)

lemma filter_removeAll_skip: "\<not> p j \<Longrightarrow> filter p (removeAll j xs) = filter p xs"
  by (induction xs) auto

lemma prefilterJob_needs_start:
  "\<not> truthy (j_scheduledStartUtc j) \<Longrightarrow> \<not> truthy (j_originalScheduledStartUtc j) \<Longrightarrow>
   \<not> truthy (j_productionDueDate j) \<Longrightarrow> \<not> prefilterJob P since until j"
  by (simp add: prefilterJob_def Let_def orElse_truthy)

lemma keepJob_needs_start:
  "\<not> truthy (opField o_scheduledStartUtc (map_option fst (pairOf pm j))) \<Longrightarrow>
   \<not> truthy (opField o_originalScheduledStartUtc (map_option fst (pairOf pm j))) \<Longrightarrow>
   \<not> truthy (j_scheduledStartUtc j) \<Longrightarrow> \<not> truthy (j_originalScheduledStartUtc j) \<Longrightarrow>
   \<not> truthy (j_productionDueDate j) \<Longrightarrow> \<not> keepJob P since until pm j"
  by (simp add: keepJob_def Let_def orElse_truthy)

lemma enrich_removeAll:
  "\<not> prefilterJob P since until j \<Longrightarrow>
     enrich P cfg clk fetch since until ops (removeAll j jobs) oc
       = enrich P cfg clk fetch since until ops jobs oc"
  by (simp add: enrich_def filter_removeAll_skip)

text \<open>
  Claim C6. A job for which neither the primary operation stored for it nor the job itself
  has a start timestamp is not among the jobs of the feed, and the response and the state
  of the request are those of the same request on the listing without that job: nothing is
  raised for it.
\<close>

theorem job_without_start_excluded:
  assumes js: "\<not> truthy (j_scheduledStartUtc j)" "\<not> truthy (j_originalScheduledStartUtc j)"
              "\<not> truthy (j_productionDueDate j)"
      and os: "\<not> truthy (opField o_scheduledStartUtc (map_option fst (pairOf
                 (snd (enrich P cfg clk fetch (q_s req) (q_u req)
                        (q_ops req = Some ''1'') jobs (s_opsCache srv))) j)))"
              "\<not> truthy (opField o_originalScheduledStartUtc (map_option fst (pairOf
                 (snd (enrich P cfg clk fetch (q_s req) (q_u req)
                        (q_ops req = Some ''1'') jobs (s_opsCache srv))) j)))"
  shows "j \<notin> set (filteredJobs P (q_s req) (q_u req)
                 (snd (enrich P cfg clk fetch (q_s req) (q_u req)
                        (q_ops req = Some ''1'') jobs (s_opsCache srv))) jobs) \<and>
         calendarRoute P cfg clk sha (Inr jobs) fetch req srv
           = calendarRoute P cfg clk sha (Inr (removeAll j jobs)) fetch req srv"
proof -
  let ?pm = "snd (enrich P cfg clk fetch (q_s req) (q_u req)
                        (q_ops req = Some ''1'') jobs (s_opsCache srv))"
  have pre: "\<not> prefilterJob P (q_s req) (q_u req) j" using js by (rule prefilterJob_needs_start)
  have keep: "\<not> keepJob P (q_s req) (q_u req) ?pm j" using os js by (rule keepJob_needs_start)
  have en: "enrich P cfg clk fetch (q_s req) (q_u req)
               (q_ops req = Some ''1'') (removeAll j jobs) (s_opsCache srv)
            = enrich P cfg clk fetch (q_s req) (q_u req)
               (q_ops req = Some ''1'') jobs (s_opsCache srv)"
    using pre by (rule enrich_removeAll)
  have fj: "filteredJobs P (q_s req) (q_u req) ?pm (removeAll j jobs)
            = filteredJobs P (q_s req) (q_u req) ?pm jobs"
    using keep by (simp add: filteredJobs_def filter_removeAll_skip)
  have bf: "buildFeed P cfg clk sha (Inr (removeAll j jobs)) fetch req (s_opsCache srv)
            = buildFeed P cfg clk sha (Inr jobs) fetch req (s_opsCache srv)"
    unfolding buildFeed_def Let_def by (simp only: en fj sum.case)
  have "j \<notin> set (filteredJobs P (q_s req) (q_u req) ?pm jobs)"
    using keep by (simp add: filteredJobs_def)
  moreover have "calendarRoute P cfg clk sha (Inr jobs) fetch req srv
           = calendarRoute P cfg clk sha (Inr (removeAll j jobs)) fetch req srv"
    unfolding calendarRoute_def by (simp only: bf)
  ultimately show ?thesis by simp
qed











































lemma keepJ1: "keepJob isoParse None None Map.empty jobJ1"
  by code_simp


lemma buildJ1:
  "buildFeed isoParse cfg0 (clockAt t) exampleDigest (Inr [jobJ1]) noOps req0 oc
     = (Inr (bodyAt t), oc)"
  by (simp add: buildFeed_def req0_def cfg0_def createdBound_def truthy_def enrich_def
      filteredJobs_def keepJ1 eventOf_def pairOf_def mapJ1 renderEvent_def clockAt_def
      bodyAt_def feedText_def uidJ1_def eventJ1_def)

lemma routeJ1:
  assumes "cacheHit cfg0 t (r_url req0) (s_cache srv) = None"
  shows "calendarRoute isoParse cfg0 (clockAt t) exampleDigest (Inr [jobJ1]) noOps req0 srv
     = (Calendar (bodyAt t) (etagOf (bodyAt t)),
        srv \<lparr> s_cache := (s_cache srv)(r_url req0 \<mapsto>
                 \<lparr> c_at = t, c_body = bodyAt t, c_etag = etagOf (bodyAt t) \<rparr>),
              s_opsCache := s_opsCache srv \<rparr>)"
proof -
  have k: "\<not> (truthy (ACCESS_KEY cfg0) \<and> q_key req0 \<noteq> ACCESS_KEY cfg0)"
    by (simp add: cfg0_def truthy_def)
  have t: "t_request (clockAt t) = t" by (simp add: clockAt_def)
  show ?thesis
    unfolding calendarRoute_def Let_def
    by (simp only: k if_False t assms option.case buildJ1 fst_conv snd_conv sum.case etagOf_def)
qed

lemma first_miss: "cacheHit cfg0 0 (r_url req0) (s_cache srv0) = None"
  by (simp add: cacheHit_def srv0_def)

lemma first0:
  "calendarRoute isoParse cfg0 (clockAt 0) exampleDigest (Inr [jobJ1]) noOps req0 srv0
     = (Calendar (bodyAt 0) (etagOf (bodyAt 0)), srvFirst)"
  unfolding srvFirst_def by (simp add: routeJ1 [OF first_miss])











theorem job_without_start_excluded_witness:
  "\<not> truthy (j_scheduledStartUtc jobNoDates) \<and>
   \<not> truthy (j_originalScheduledStartUtc jobNoDates) \<and>
   \<not> truthy (j_productionDueDate jobNoDates) \<and>
   calendarRoute isoParse cfg0 (clockAt 0) exampleDigest (Inr [jobJ1, jobNoDates]) noOps req0 srv0
     = calendarRoute isoParse cfg0 (clockAt 0) exampleDigest (Inr [jobJ1]) noOps req0 srv0 \<and>
   fst (calendarRoute isoParse cfg0 (clockAt 0) exampleDigest (Inr [jobJ1, jobNoDates]) noOps
          req0 srv0) = Calendar (bodyAt 0) (etagOf (bodyAt 0))"
proof -
  have js: "\<not> truthy (j_scheduledStartUtc jobNoDates)"
      "\<not> truthy (j_originalScheduledStartUtc jobNoDates)"
      "\<not> truthy (j_productionDueDate jobNoDates)"
    by (simp_all add: jobNoDates_def emptyJob_def truthy_def)
  let ?pm = "snd (enrich isoParse cfg0 (clockAt 0) noOps (q_s req0) (q_u req0)
                   (q_ops req0 = Some ''1'') [jobJ1, jobNoDates] (s_opsCache srv0))"
  have pm: "pairOf ?pm jobNoDates = None" by (simp add: enrich_def req0_def pairOf_def)
  have os: "\<not> truthy (opField o_scheduledStartUtc (map_option fst (pairOf ?pm jobNoDates)))"
      "\<not> truthy (opField o_originalScheduledStartUtc (map_option fst (pairOf ?pm jobNoDates)))"
    by (simp_all add: pm opField_def truthy_def)
  have ne: "jobJ1 \<noteq> jobNoDates" by (simp add: jobJ1_def jobNoDates_def emptyJob_def)
  have r: "removeAll jobNoDates [jobJ1, jobNoDates] = [jobJ1]" using ne by simp
  from job_without_start_excluded [where j = jobNoDates and P = isoParse and cfg = cfg0
      and clk = "clockAt 0" and fetch = noOps and req = req0 and jobs = "[jobJ1, jobNoDates]"
      and srv = srv0 and sha = exampleDigest, OF js os]
  have eq: "calendarRoute isoParse cfg0 (clockAt 0) exampleDigest (Inr [jobJ1, jobNoDates]) noOps
              req0 srv0
            = calendarRoute isoParse cfg0 (clockAt 0) exampleDigest (Inr [jobJ1]) noOps req0 srv0"
    by (simp only: r)
  with js first0 show ?thesis by simp
qed








end
